theory Spec2Isabelle
  imports Complex_Main
begin

section \<open>Double arithmetic\<close>

text \<open>
  The coordinates of Maya's \<open>MPoint\<close>, \<open>MVector\<close> and \<open>MBoundingBox\<close> are IEEE-754
  binary64 numbers. A coordinate is the real number that the double denotes, and every
  arithmetic operation of the source rounds its exact result to the nearest double, ties
  to the even significand: \<open>roundDouble\<close>, with the 53-bit significand of binary64. The
  exponent range is not bounded: overflow to an infinity, \<open>NaN\<close> and the subnormal
  numbers are outside the model, which is the program on coordinates of ordinary
  magnitude. Comparisons of doubles are exact.
\<close>

definition roundHalfEven :: "real \<Rightarrow> int" where
  "roundHalfEven y =
     (let f = \<lfloor>y\<rfloor>; r = y - of_int f in
      if r < 1 / 2 then f else if 1 / 2 < r then f + 1 else if even f then f else f + 1)"

definition roundDouble :: "real \<Rightarrow> real" where
  "roundDouble x =
     (if x = 0 then 0
      else (let ulp = 2 powr (of_int \<lfloor>log 2 \<bar>x\<bar>\<rfloor> - 52)
            in of_int (roundHalfEven (x / ulp)) * ulp))"

definition dadd :: "real \<Rightarrow> real \<Rightarrow> real" where
  "dadd a b = roundDouble (a + b)"

definition dsub :: "real \<Rightarrow> real \<Rightarrow> real" where
  "dsub a b = roundDouble (a - b)"

definition dmul :: "real \<Rightarrow> real \<Rightarrow> real" where
  "dmul a b = roundDouble (a * b)"

definition ddiv :: "real \<Rightarrow> real \<Rightarrow> real" where
  "ddiv a b = roundDouble (a / b)"

definition dsqrt :: "real \<Rightarrow> real" where
  "dsqrt a = roundDouble (sqrt a)"

section \<open>Geometry primitives\<close>

text \<open>
  The operations of \<open>MPoint\<close> and \<open>MVector\<close> that the source uses, coordinate by
  coordinate in double arithmetic.
\<close>

record MPoint =
  px :: real
  py :: real
  pz :: real

definition mkPoint :: "real \<Rightarrow> real \<Rightarrow> real \<Rightarrow> MPoint" where
  "mkPoint a b c = \<lparr>px = a, py = b, pz = c\<rparr>"

definition padd :: "MPoint \<Rightarrow> MPoint \<Rightarrow> MPoint" where
  "padd p q = mkPoint (dadd (px p) (px q)) (dadd (py p) (py q)) (dadd (pz p) (pz q))"

definition psub :: "MPoint \<Rightarrow> MPoint \<Rightarrow> MPoint" where
  "psub p q = mkPoint (dsub (px p) (px q)) (dsub (py p) (py q)) (dsub (pz p) (pz q))"

definition pdiv :: "MPoint \<Rightarrow> real \<Rightarrow> MPoint" where
  "pdiv p s = mkPoint (ddiv (px p) s) (ddiv (py p) s) (ddiv (pz p) s)"

text \<open>\<open>MVector::length\<close>: the square root of the sum of the squares.\<close>

definition vlength :: "MPoint \<Rightarrow> real" where
  "vlength v = dsqrt (dadd (dadd (dmul (px v) (px v)) (dmul (py v) (py v))) (dmul (pz v) (pz v)))"

record MBoundingBox =
  bmin :: MPoint
  bmax :: MPoint

text \<open>
  \<open>MBoundingBox(corner1, corner2)\<close>: the smallest box holding both corners.
\<close>

definition mkBox :: "MPoint \<Rightarrow> MPoint \<Rightarrow> MBoundingBox" where
  "mkBox c1 c2 =
     \<lparr>bmin = mkPoint (min (px c1) (px c2)) (min (py c1) (py c2)) (min (pz c1) (pz c2)),
      bmax = mkPoint (max (px c1) (px c2)) (max (py c1) (py c2)) (max (pz c1) (pz c2))\<rparr>"

definition center :: "MBoundingBox \<Rightarrow> MPoint" where
  "center b = pdiv (padd (bmin b) (bmax b)) 2"

text \<open>
  \<open>MBoundingBox::contains\<close>: the point lies inside or on the box.
\<close>

definition contains :: "MBoundingBox \<Rightarrow> MPoint \<Rightarrow> bool" where
  "contains b p \<longleftrightarrow>
     px (bmin b) \<le> px p \<and> px p \<le> px (bmax b) \<and>
     py (bmin b) \<le> py p \<and> py p \<le> py (bmax b) \<and>
     pz (bmin b) \<le> pz p \<and> pz p \<le> pz (bmax b)"

text \<open>
  Modelled from the spec: \<open>MBoundingBox::intersects\<close> belongs to the Maya library. It
  is true iff the two intervals overlap on every axis, touching included.
\<close>

definition intersects :: "MBoundingBox \<Rightarrow> MBoundingBox \<Rightarrow> bool" where
  "intersects a b \<longleftrightarrow>
     px (bmin a) \<le> px (bmax b) \<and> px (bmin b) \<le> px (bmax a) \<and>
     py (bmin a) \<le> py (bmax b) \<and> py (bmin b) \<le> py (bmax a) \<and>
     pz (bmin a) \<le> pz (bmax b) \<and> pz (bmin b) \<le> pz (bmax a)"

section \<open>Triangles and octree nodes\<close>

record TriangleData =
  faceIndex :: int
  triangleIndex :: int
  v0 :: MPoint
  v1 :: MPoint
  v2 :: MPoint
  normal :: MPoint

text \<open>
  Modelled from the spec: \<open>boxContainsAnyVertices\<close> and \<open>boxContainsAllVertices\<close> are
  helpers of the repository that are declared outside the kernel's source file. The first
  is true if any of the three vertices lies inside or on the box, the second iff all three
  do.
\<close>

definition boxContainsAnyVertices :: "MBoundingBox \<Rightarrow> TriangleData \<Rightarrow> bool" where
  "boxContainsAnyVertices b t \<longleftrightarrow> contains b (v0 t) \<or> contains b (v1 t) \<or> contains b (v2 t)"

definition boxContainsAllVertices :: "MBoundingBox \<Rightarrow> TriangleData \<Rightarrow> bool" where
  "boxContainsAllVertices b t \<longleftrightarrow> contains b (v0 t) \<and> contains b (v1 t) \<and> contains b (v2 t)"

text \<open>
  An \<open>OctreeNode\<close> has a bounding box, an array of eight child pointers and a vector of
  triangles. The array is a list of slots, \<open>None\<close> for a null pointer; the loops
  \<open>for (i = 0; i < 8; ++i)\<close> of the source run over the slots in order. Every node the
  kernel creates has exactly eight slots (\<open>newNode\<close>).
\<close>

datatype OctreeNode =
  Node (boundingBox: MBoundingBox) (children: "OctreeNode option list")
       (triangles: "TriangleData list")

definition newNode :: "MBoundingBox \<Rightarrow> OctreeNode" where
  "newNode b = Node b (replicate 8 None) []"

text \<open>
  Modelled from the spec: \<open>OctreeNode::isLeaf\<close> is declared in the kernel's header. A node
  is a leaf iff all its child slots are empty.
\<close>

definition isLeaf :: "OctreeNode \<Rightarrow> bool" where
  "isLeaf n \<longleftrightarrow> list_all (\<lambda>c. c = None) (children n)"

section \<open>Building the octree\<close>

text \<open>
  The two build parameters are global \<open>int\<close> variables of the source, initialised to
  10 and 32 and never assigned again.
\<close>

definition MAX_TRIANGLES_PER_NODE :: int where
  "MAX_TRIANGLES_PER_NODE = 10"

definition MAX_DEPTH :: int where
  "MAX_DEPTH = 32"

text \<open>\<open>node->triangles.push_back(triangle)\<close>.\<close>

definition pushTriangle :: "OctreeNode \<Rightarrow> TriangleData \<Rightarrow> OctreeNode" where
  "pushTriangle node triangle =
     Node (boundingBox node) (children node) (triangles node @ [triangle])"

subsection \<open>Splitting a node\<close>

text \<open>The eight octant boxes, in the order the source fills \<open>boxes[0..7]\<close>.\<close>

definition childBoxes :: "MBoundingBox \<Rightarrow> MBoundingBox list" where
  "childBoxes bb =
     (let c = center bb; mn = bmin bb; mx = bmax bb in
      [mkBox mn c,
       mkBox (mkPoint (px c) (py mn) (pz mn)) (mkPoint (px mx) (py c) (pz c)),
       mkBox (mkPoint (px c) (py mn) (pz c)) (mkPoint (px mx) (py c) (pz mx)),
       mkBox (mkPoint (px mn) (py mn) (pz c)) (mkPoint (px c) (py c) (pz mx)),
       mkBox (mkPoint (px mn) (py c) (pz mn)) (mkPoint (px c) (py mx) (pz c)),
       mkBox (mkPoint (px c) (py c) (pz mn)) (mkPoint (px mx) (py mx) (pz c)),
       mkBox c mx,
       mkBox (mkPoint (px mn) (py c) (pz c)) (mkPoint (px c) (py mx) (pz mx))])"

text \<open>
  The inner loop with \<open>break\<close>: the first index whose box contains all three vertices.
\<close>

definition firstContaining :: "MBoundingBox list \<Rightarrow> TriangleData \<Rightarrow> nat option" where
  "firstContaining boxes triangle =
     find (\<lambda>i. boxContainsAllVertices (boxes ! i) triangle) [0..<8]"

text \<open>\<open>(vertices[0] + vertices[1] + vertices[2]) / 3.0\<close>.\<close>

definition baryCenter :: "TriangleData \<Rightarrow> MPoint" where
  "baryCenter triangle = pdiv (padd (padd (v0 triangle) (v1 triangle)) (v2 triangle)) 3"

text \<open>
  The search for the nearest child: the loop state is \<open>(nearestChild, minDistance)\<close>,
  started at child 0 and updated on a strictly smaller distance.
\<close>

definition nearestStep ::
  "MBoundingBox list \<Rightarrow> MPoint \<Rightarrow> nat \<Rightarrow> nat \<times> real \<Rightarrow> nat \<times> real" where
  "nearestStep boxes bc i st =
     (let distance = vlength (psub (center (boxes ! i)) bc) in
      if distance < snd st then (i, distance) else st)"

definition nearestChild :: "MBoundingBox list \<Rightarrow> TriangleData \<Rightarrow> nat" where
  "nearestChild boxes triangle =
     (let bc = baryCenter triangle in
      fst (fold (nearestStep boxes bc) [1..<8] (0, vlength (psub (center (boxes ! 0)) bc))))"

text \<open>
  The body of the loop over \<open>node->triangles\<close>; \<open>kids\<close> are the eight new children.
\<close>

definition moveTriangle ::
  "MBoundingBox list \<Rightarrow> TriangleData \<Rightarrow> OctreeNode list \<Rightarrow> OctreeNode list" where
  "moveTriangle boxes triangle kids =
     (case firstContaining boxes triangle of
        Some i \<Rightarrow> kids[i := pushTriangle (kids ! i) triangle]
      | None \<Rightarrow>
          (let nearest = nearestChild boxes triangle in
           kids[nearest := pushTriangle (kids ! nearest) triangle]))"

text \<open>
  The index of the child that the loop body pushes the triangle to, and the distance that
  the loop compares, \<open>(boxes[i].center() - baryCenter).length()\<close>. Beside them the two
  quantities that the specification names for the second rule, without rounding: the
  arithmetic mean of the three vertices and the Euclidean distance of two points.
\<close>

definition destinationChild :: "MBoundingBox list \<Rightarrow> TriangleData \<Rightarrow> nat" where
  "destinationChild boxes triangle =
     (case firstContaining boxes triangle of
        Some i \<Rightarrow> i
      | None \<Rightarrow> nearestChild boxes triangle)"

definition centreDistance :: "MBoundingBox list \<Rightarrow> TriangleData \<Rightarrow> nat \<Rightarrow> real" where
  "centreDistance boxes t i = vlength (psub (center (boxes ! i)) (baryCenter t))"



definition splitNode :: "OctreeNode \<Rightarrow> OctreeNode" where
  "splitNode node =
     (let boxes = childBoxes (boundingBox node);
          kids = fold (moveTriangle boxes) (triangles node) (map newNode boxes)
      in Node (boundingBox node) (map Some kids) [])"

subsection \<open>Inserting a triangle\<close>

text \<open>
  The loop over the child slots of an interior node: the state is the slots already
  visited, each holding the child after its recursive insertion, and the flag
  \<open>inserted\<close>. The depth is a C \<open>int\<close>; \<open>depth + 1\<close> is only computed when
  \<open>depth \<le> MAX_DEPTH\<close>, so it cannot overflow and an unbounded integer models it.
\<close>

function insertTriangle :: "OctreeNode \<Rightarrow> TriangleData \<Rightarrow> int \<Rightarrow> OctreeNode" where
  "insertTriangle node triangle depth =
     (if depth > MAX_DEPTH then pushTriangle node triangle
      else if isLeaf node then
        (if int (length (triangles node)) < MAX_TRIANGLES_PER_NODE
         then pushTriangle node triangle
         else insertTriangle (splitNode node) triangle (depth + 1))
      else
        (let (kids, inserted) =
               fold (\<lambda>c st.
                       if c \<noteq> None \<and> boxContainsAnyVertices (boundingBox (the c)) triangle
                       then (fst st @ [Some (insertTriangle (the c) triangle (depth + 1))], True)
                       else (fst st @ [c], snd st))
                    (children node) ([], False)
         in if \<not> inserted
            then Node (boundingBox node) kids (triangles node @ [triangle])
            else Node (boundingBox node) kids (triangles node)))"
  by pat_completeness auto
termination
  by (relation "measure (\<lambda>(node, triangle, depth). nat (MAX_DEPTH + 1 - depth))") auto

text \<open>
  The number of nested recursive calls that \<open>insertTriangle\<close> makes below a call: zero
  when the call returns without recursing, otherwise one more than the deepest of the
  calls its body makes. The children are disjoint subtrees, so the call on a child sees
  the child as it was before the loop.
\<close>

function recursionDepth :: "OctreeNode \<Rightarrow> TriangleData \<Rightarrow> int \<Rightarrow> nat" where
  "recursionDepth node triangle depth =
     (if depth > MAX_DEPTH then 0
      else if isLeaf node then
        (if int (length (triangles node)) < MAX_TRIANGLES_PER_NODE then 0
         else 1 + recursionDepth (splitNode node) triangle (depth + 1))
      else
        fold (\<lambda>c deepest.
                if c \<noteq> None \<and> boxContainsAnyVertices (boundingBox (the c)) triangle
                then max deepest (1 + recursionDepth (the c) triangle (depth + 1))
                else deepest)
             (children node) 0)"
  by pat_completeness auto
termination
  by (relation "measure (\<lambda>(node, triangle, depth). nat (MAX_DEPTH + 1 - depth))") auto

section \<open>Dual-tree traversal\<close>

type_synonym NodePairs = "(OctreeNode \<times> OctreeNode) list"

lemma size_slot:
  "Some c \<in> set cs \<Longrightarrow> size c < Suc (size_list (size_option size) cs)"
  by (induction cs) (auto simp: less_Suc_eq)

lemma child_size: "Some c \<in> set (children n) \<Longrightarrow> size c < size n"
  by (cases n) (simp add: size_slot)

lemma fold_slots_cong [fundef_cong]:
  "xs = ys \<Longrightarrow> (\<And>x. x \<in> set ys \<Longrightarrow> f x = g x) \<Longrightarrow> fold f xs = fold g ys"
proof (rule ext)
  fix a
  assume "xs = ys" and "\<And>x. x \<in> set ys \<Longrightarrow> f x = g x"
  then show "fold f xs a = fold g ys a"
    by (intro fold_cong) simp_all
qed

function intersectOctreeNodesRecursive :: "OctreeNode \<Rightarrow> OctreeNode \<Rightarrow> NodePairs \<Rightarrow> NodePairs" where
  "intersectOctreeNodesRecursive nodeA nodeB intersectedNodes =
     (if \<not> intersects (boundingBox nodeA) (boundingBox nodeB) then intersectedNodes
      else if isLeaf nodeA \<and> isLeaf nodeB then intersectedNodes @ [(nodeA, nodeB)]
      else if isLeaf nodeA then
        fold (\<lambda>cb acc. case cb of None \<Rightarrow> acc
                | Some b \<Rightarrow> intersectOctreeNodesRecursive nodeA b acc)
             (children nodeB) intersectedNodes
      else if isLeaf nodeB then
        fold (\<lambda>ca acc. case ca of None \<Rightarrow> acc
                | Some a \<Rightarrow> intersectOctreeNodesRecursive a nodeB acc)
             (children nodeA) intersectedNodes
      else
        fold (\<lambda>ca acc.
                fold (\<lambda>cb acc'.
                        if ca \<noteq> None \<and> cb \<noteq> None
                        then intersectOctreeNodesRecursive (the ca) (the cb) acc' else acc')
                     (children nodeB) acc)
             (children nodeA) intersectedNodes)"
  by pat_completeness auto
termination
  by (relation "measure (\<lambda>(a, b, acc). size a + size b)")
     (auto dest!: child_size)

section \<open>Kernel-vs-kernel query\<close>

text \<open>
  An \<open>OctreeKernel\<close> owns the root pointer, which is null until \<open>build\<close> has run.
  \<open>intersectKernelKernel\<close> takes any \<open>SpatialDivisionKernel\<close> and casts it down with
  \<open>dynamic_cast\<close>; \<open>OtherKernel\<close> stands for a kernel of another subclass, on which the
  cast gives null.
\<close>

record OctreeKernel =
  root :: "OctreeNode option"

text \<open>
  \<open>build\<close>: a fresh root stamped with the box, then one insertion at depth 0 for every
  triangle of the mesh. \<open>meshTriangles\<close> is the sequence of triangle records that the
  two nested loops over the polygon iterator produce, each with its points already
  multiplied by the offset matrix.
\<close>

definition build :: "TriangleData list \<Rightarrow> MBoundingBox \<Rightarrow> OctreeKernel" where
  "build meshTriangles bbox =
     \<lparr>root = Some (fold (\<lambda>triangle node. insertTriangle node triangle 0)
                        meshTriangles (newNode bbox))\<rparr>"

datatype SpatialDivisionKernel = Octree OctreeKernel | OtherKernel

type_synonym K2KIntersection = "TriangleData list \<times> TriangleData list"

text \<open>
  The query dereferences both roots without a null check, so on a kernel that was never
  built it does not return a result: \<open>NullRoot\<close>. A returned value carries the messages
  sent to \<open>MGlobal::displayError\<close> beside the pair of triangle vectors.
\<close>

datatype error = NullRoot

text \<open>
  \<open>intersectTriangleTriangle\<close> is a helper of the repository declared outside the
  kernel's source file; the query takes it as the parameter \<open>tt\<close>, and the
  predicate that the specification describes is defined further down.
\<close>

definition testLeafPair ::
  "(TriangleData \<Rightarrow> TriangleData \<Rightarrow> bool) \<Rightarrow> OctreeNode \<Rightarrow> OctreeNode
     \<Rightarrow> K2KIntersection \<Rightarrow> K2KIntersection" where
  "testLeafPair tt nodeA nodeB acc =
     fold (\<lambda>triA accA.
             fold (\<lambda>triB (trisA, trisB).
                     if tt triA triB then (trisA @ [triA], trisB @ [triB])
                     else (trisA, trisB))
                  (triangles nodeB) accA)
          (triangles nodeA) acc"

definition testNodePairs ::
  "(TriangleData \<Rightarrow> TriangleData \<Rightarrow> bool) \<Rightarrow> NodePairs \<Rightarrow> K2KIntersection" where
  "testNodePairs tt intersectedNodes =
     fold (\<lambda>(nodeA, nodeB) acc.
             if isLeaf nodeA \<and> isLeaf nodeB then testLeafPair tt nodeA nodeB acc else acc)
          intersectedNodes ([], [])"

definition intersectKernelKernel ::
  "(TriangleData \<Rightarrow> TriangleData \<Rightarrow> bool) \<Rightarrow> OctreeKernel \<Rightarrow> SpatialDivisionKernel
     \<Rightarrow> error + (string list \<times> K2KIntersection)" where
  "intersectKernelKernel tt this otherKernel =
     (case otherKernel of
        OtherKernel \<Rightarrow>
          Inr ([''Cannot intersect octree with other kernel type!''], ([], []))
      | Octree other \<Rightarrow>
          (case root this of
             None \<Rightarrow> Inl NullRoot
           | Some rootA \<Rightarrow>
               (case root other of
                  None \<Rightarrow> Inl NullRoot
                | Some rootB \<Rightarrow>
                    Inr ([], testNodePairs tt
                               (intersectOctreeNodesRecursive rootA rootB [])))))"

text \<open>
  Names for what the query computes on the way: the node pairs of a traversal started on
  an empty vector, the triangle pairs that pass the predicate in one node pair, and those
  of a whole list of node pairs.
\<close>

definition leafPairs :: "OctreeNode \<Rightarrow> OctreeNode \<Rightarrow> NodePairs" where
  "leafPairs nodeA nodeB = intersectOctreeNodesRecursive nodeA nodeB []"

definition pairHits ::
  "(TriangleData \<Rightarrow> TriangleData \<Rightarrow> bool) \<Rightarrow> OctreeNode \<Rightarrow> OctreeNode
     \<Rightarrow> (TriangleData \<times> TriangleData) list" where
  "pairHits tt nodeA nodeB =
     concat (map (\<lambda>triA. map (\<lambda>triB. (triA, triB)) (filter (tt triA) (triangles nodeB)))
                 (triangles nodeA))"

definition allHits ::
  "(TriangleData \<Rightarrow> TriangleData \<Rightarrow> bool) \<Rightarrow> NodePairs
     \<Rightarrow> (TriangleData \<times> TriangleData) list" where
  "allHits tt pairs =
     concat (map (\<lambda>(nodeA, nodeB).
                    if isLeaf nodeA \<and> isLeaf nodeB then pairHits tt nodeA nodeB else [])
                 pairs)"

text \<open>
  The node with the triangle vectors of all interior nodes emptied. The traversal never
  reads those vectors, which is what the query's independence of them is stated with.
\<close>

fun stripInterior :: "OctreeNode \<Rightarrow> OctreeNode" where
  "stripInterior (Node bb slots tris) =
     Node bb (map (map_option stripInterior) slots)
          (if list_all (\<lambda>c. c = None) slots then tris else [])"

definition stripKernel :: "OctreeKernel \<Rightarrow> OctreeKernel" where
  "stripKernel k = \<lparr>root = map_option stripInterior (root k)\<rparr>"

text \<open>
  Modelled from the spec: the driver step that collapses a returned triangle sequence to
  a set of face ids lives in the marker node, outside the source files at hand. The set
  is a \<open>std::unordered_set<int>\<close> (the type \<open>addIntersectedVertices\<close> receives); it is
  a list without repetitions here, and inserting a present id changes nothing.
\<close>

definition insertFaceId :: "int \<Rightarrow> int list \<Rightarrow> int list" where
  "insertFaceId f ids = (if f \<in> set ids then ids else ids @ [f])"

definition collapseFaceIds :: "TriangleData list \<Rightarrow> int list" where
  "collapseFaceIds tris = fold (\<lambda>t ids. insertFaceId (faceIndex t) ids) tris []"

text \<open>
  Modelled from the spec: the driver's steps 3 and 4, the query followed by the collapse
  of both returned vectors; this is the result that is observed from outside.
\<close>

definition intersectFaceIds ::
  "(TriangleData \<Rightarrow> TriangleData \<Rightarrow> bool) \<Rightarrow> OctreeKernel \<Rightarrow> SpatialDivisionKernel
     \<Rightarrow> error + (int list \<times> int list)" where
  "intersectFaceIds tt kernelA kernelB =
     (case intersectKernelKernel tt kernelA kernelB of
        Inl e \<Rightarrow> Inl e
      | Inr (msgs, trisA, trisB) \<Rightarrow> Inr (collapseFaceIds trisA, collapseFaceIds trisB))"

text \<open>
  Modelled from the spec: \<open>intersectTriangleTriangle\<close>, the predicate the query calls on
  every pair of triangles, is declared in a header of the repository that is not among
  the source files at hand. The specification describes it as true iff the two closed
  triangles share at least one point, and exact. A closed triangle is the set of the
  convex combinations of its three vertices; the coordinates are taken as the exact
  reals that the stored doubles denote. On triangles of zero area the specification
  leaves the answer open; the same reading is taken there.
\<close>

definition inTriangle :: "TriangleData \<Rightarrow> MPoint \<Rightarrow> bool" where
  "inTriangle t p \<longleftrightarrow>
     (\<exists>a b c. 0 \<le> a \<and> 0 \<le> b \<and> 0 \<le> c \<and> a + b + c = 1 \<and>
        px p = a * px (v0 t) + b * px (v1 t) + c * px (v2 t) \<and>
        py p = a * py (v0 t) + b * py (v1 t) + c * py (v2 t) \<and>
        pz p = a * pz (v0 t) + b * pz (v1 t) + c * pz (v2 t))"

definition intersectTriangleTriangle :: "TriangleData \<Rightarrow> TriangleData \<Rightarrow> bool" where
  "intersectTriangleTriangle triA triB \<longleftrightarrow> (\<exists>p. inTriangle triA p \<and> inTriangle triB p)"

text \<open>
  A sample triangle predicate for concrete runs of the query: two triangles have a
  vertex in common.
\<close>

definition vertexList :: "TriangleData \<Rightarrow> MPoint list" where
  "vertexList t = [v0 t, v1 t, v2 t]"

definition shareVertex :: "TriangleData \<Rightarrow> TriangleData \<Rightarrow> bool" where
  "shareVertex a b \<longleftrightarrow> list_ex (\<lambda>p. p \<in> set (vertexList b)) (vertexList a)"

subsection \<open>Sample kernels\<close>

text \<open>
  Two small trees for concrete runs. \<open>sampleTreeA\<close> is a leaf with one triangle that
  is split, and then receives a triangle lying outside its box, which no child accepts
  and which stays at the interior root. \<open>sampleTreeB\<close> is a leaf whose first triangle
  has a vertex in common with the triangle in a leaf of \<open>sampleTreeA\<close> and whose second
  triangle has a vertex in common with the triangle at the root of \<open>sampleTreeA\<close>.
  \<open>sampleTreeC\<close> lies apart from both.
\<close>

definition sampleTriangle :: "int \<Rightarrow> MPoint \<Rightarrow> TriangleData" where
  "sampleTriangle f p =
     \<lparr>faceIndex = f, triangleIndex = 0, v0 = p,
      v1 = mkPoint (px p + 1) (py p) (pz p),
      v2 = mkPoint (px p) (py p + 1) (pz p), normal = mkPoint 0 0 1\<rparr>"

definition sampleTreeA :: OctreeNode where
  "sampleTreeA =
     insertTriangle
       (splitNode (Node (mkBox (mkPoint 0 0 0) (mkPoint 4 4 4)) (replicate 8 None)
                        [sampleTriangle 0 (mkPoint 1 1 1)]))
       (sampleTriangle 1 (mkPoint 5 5 5)) 0"

definition sampleLeafA :: OctreeNode where
  "sampleLeafA =
     Node (mkBox (mkPoint 0 0 0) (mkPoint 2 2 2)) (replicate 8 None)
          [sampleTriangle 0 (mkPoint 1 1 1)]"




definition sampleTreeB :: OctreeNode where
  "sampleTreeB =
     Node (mkBox (mkPoint (1 / 2) (1 / 2) (1 / 2)) (mkPoint (3 / 2) (3 / 2) (3 / 2)))
          (replicate 8 None)
          [sampleTriangle 7 (mkPoint 1 1 1), sampleTriangle 8 (mkPoint 6 5 5)]"

text \<open>
  \<open>sampleTreeD\<close> is an empty leaf that is split and then receives a triangle whose
  vertices lie in three of the children, so that the triangle is stored three times.
  \<open>sampleTreeE\<close> is a leaf that overlaps all eight children of \<open>sampleTreeD\<close>.
\<close>

definition sampleTreeD :: OctreeNode where
  "sampleTreeD =
     insertTriangle
       (splitNode (Node (mkBox (mkPoint 0 0 0) (mkPoint 4 4 4)) (replicate 8 None) []))
       (sampleTriangle 3 (mkPoint (3 / 2) 1 1)) 0"

definition sampleTreeE :: OctreeNode where
  "sampleTreeE =
     Node (mkBox (mkPoint 1 1 1) (mkPoint 3 3 3)) (replicate 8 None)
          [sampleTriangle 7 (mkPoint (3 / 2) 1 1)]"

text \<open>
  \<open>crowdedLeaf s\<close> is a full leaf on the cube from the origin to \<open>(s, s, s)\<close>: ten
  triangles, of the faces 0 to 9, all on the same three points next to the origin.
\<close>

definition crowdedLeaf :: "real \<Rightarrow> OctreeNode" where
  "crowdedLeaf s =
     Node \<lparr>bmin = mkPoint 0 0 0, bmax = mkPoint s s s\<rparr> (replicate 8 None)
          (map (\<lambda>f. sampleTriangle (int f) (mkPoint 0 0 0)) [0..<10])"

definition sampleTreeC :: OctreeNode where
  "sampleTreeC =
     Node (mkBox (mkPoint 10 10 10) (mkPoint 12 12 12)) (replicate 8 None)
          [sampleTriangle 9 (mkPoint 10 10 10)]"

section \<open>Result assembly in the draw override\<close>

text \<open>
  \<open>addIntersectedVertices\<close> reads the mesh through Maya's \<open>MFnMesh\<close>: the polygon count,
  the triangle count of each polygon and the vertex ids of all triangles
  (\<open>getTriangles\<close>), the vertex positions (\<open>getPoints\<close>) and the polygon normals. The
  arrays are maps from the index; the offset matrix is its action on points.
\<close>

record MFnMesh =
  numPolygons :: int
  triangleCounts :: "int \<Rightarrow> int"
  triangleVertices :: "int \<Rightarrow> int"
  vertexPositions :: "int \<Rightarrow> MPoint"
  polygonNormal :: "int \<Rightarrow> MPoint"

type_synonym MMatrix = "MPoint \<Rightarrow> MPoint"

record FaceData =
  vertices :: "MPoint list"
  edges :: "MPoint list"

definition pscale :: "MPoint \<Rightarrow> real \<Rightarrow> MPoint" where
  "pscale p s = mkPoint (dmul (px p) s) (dmul (py p) s) (dmul (pz p) s)"

text \<open>The literal \<open>0.001\<close>: the double next to one thousandth.\<close>

definition offsetFactor :: real where
  "offsetFactor = roundDouble (1 / 1000)"

text \<open>
  \<open>polygonTriangleOffsets[p]\<close> after the prefix-sum loop: three entries of
  \<open>triangleVertices\<close> for every triangle of the polygons before \<open>p\<close>.
\<close>

fun polygonTriangleOffsets :: "(int \<Rightarrow> int) \<Rightarrow> nat \<Rightarrow> int" where
  "polygonTriangleOffsets counts 0 = 0"
| "polygonTriangleOffsets counts (Suc p) =
     polygonTriangleOffsets counts p + counts (int p) * 3"

text \<open>\<open>std::to_string\<close> on an \<open>int\<close>: decimal digits, with a minus sign.\<close>

definition digitChar :: "nat \<Rightarrow> char" where
  "digitChar d = ''0123456789'' ! d"

function natDigits :: "nat \<Rightarrow> string" where
  "natDigits n = (if n < 10 then [digitChar n] else natDigits (n div 10) @ [digitChar (n mod 10)])"
  by pat_completeness auto
termination
  by (relation "measure id") auto

definition to_string :: "int \<Rightarrow> string" where
  "to_string i = (if i < 0 then CHR ''-'' # natDigits (nat (- i)) else natDigits (nat i))"

definition outOfBoundsMessage :: "int \<Rightarrow> string" where
  "outOfBoundsMessage faceId = ''Face ID out of bounds: '' @ to_string faceId"

text \<open>The body of the loop over the triangles of one polygon.\<close>

definition appendTriangle ::
  "MFnMesh \<Rightarrow> MMatrix \<Rightarrow> int \<Rightarrow> int \<Rightarrow> FaceData \<Rightarrow> FaceData" where
  "appendTriangle meshFn offsetMatrix faceId triangleIdx faceData =
     (let triangleVerticesOffset = polygonTriangleOffsets (triangleCounts meshFn) (nat faceId);
          vertexId0 = triangleVertices meshFn (triangleVerticesOffset + triangleIdx * 3 + 0);
          vertexId1 = triangleVertices meshFn (triangleVerticesOffset + triangleIdx * 3 + 1);
          vertexId2 = triangleVertices meshFn (triangleVerticesOffset + triangleIdx * 3 + 2);
          p0 = offsetMatrix (vertexPositions meshFn vertexId0);
          p1 = offsetMatrix (vertexPositions meshFn vertexId1);
          p2 = offsetMatrix (vertexPositions meshFn vertexId2);
          nrm = pscale (polygonNormal meshFn faceId) offsetFactor
      in faceData\<lparr>vertices := vertices faceData @ [padd p0 nrm, padd p1 nrm, padd p2 nrm]\<rparr>)"

definition buildFaceData :: "MFnMesh \<Rightarrow> MMatrix \<Rightarrow> int \<Rightarrow> FaceData" where
  "buildFaceData meshFn offsetMatrix faceId =
     fold (\<lambda>k. appendTriangle meshFn offsetMatrix faceId (int k))
          [0..<nat (triangleCounts meshFn faceId)]
          \<lparr>vertices = [], edges = []\<rparr>"

text \<open>
  The state of the loop over the face ids is \<open>data->faces\<close> and the messages sent to
  \<open>MGlobal::displayInfo\<close>. The ids come from a \<open>std::unordered_set<int>\<close>; the list
  gives them in the order the iteration visits them.
\<close>

definition addIntersectedVertices ::
  "MFnMesh \<Rightarrow> FaceData list \<times> string list \<Rightarrow> int list \<Rightarrow> MMatrix
     \<Rightarrow> FaceData list \<times> string list" where
  "addIntersectedVertices meshFn data intersectedFaceIds offsetMatrix =
     fold (\<lambda>faceId (faces, messages).
             if faceId < 0 \<or> faceId \<ge> numPolygons meshFn
             then (faces, messages @ [outOfBoundsMessage faceId])
             else (faces @ [buildFaceData meshFn offsetMatrix faceId], messages))
          intersectedFaceIds data"

text \<open>
  A mesh of one polygon, a single triangle on the vertices 0, 1 and 2, for concrete runs.
\<close>

definition sampleMesh :: MFnMesh where
  "sampleMesh =
     \<lparr>numPolygons = 1,
      triangleCounts = (\<lambda>p. 1),
      triangleVertices = (\<lambda>i. i),
      vertexPositions = (\<lambda>v. mkPoint (of_int v) 0 0),
      polygonNormal = (\<lambda>p. mkPoint 0 0 1)\<rparr>"

section \<open>Properties of the traversal\<close>

declare insertTriangle.simps [simp del]
declare recursionDepth.simps [simp del]
declare natDigits.simps [simp del]

lemma fold_append_concat:
  assumes "\<And>x acc. x \<in> set xs \<Longrightarrow> f x acc = acc @ g x"
  shows "fold f xs acc = acc @ concat (map g xs)"
  using assms by (induction xs arbitrary: acc) simp_all

declare intersectOctreeNodesRecursive.simps [simp del]

lemma traverse_acc:
  "intersectOctreeNodesRecursive nodeA nodeB acc = acc @ leafPairs nodeA nodeB"
proof (induction nodeA nodeB acc rule: intersectOctreeNodesRecursive.induct)
  case (1 nodeA nodeB acc)
  let ?I = "intersects (boundingBox nodeA) (boundingBox nodeB)"
  consider (a) "\<not> ?I" | (b) "?I" "isLeaf nodeA" "isLeaf nodeB"
    | (c) "?I" "isLeaf nodeA" "\<not> isLeaf nodeB"
    | (d) "?I" "\<not> isLeaf nodeA" "isLeaf nodeB"
    | (e) "?I" "\<not> isLeaf nodeA" "\<not> isLeaf nodeB" by blast
  then show ?case
  proof cases
    case a
    then show ?thesis
      by (simp add: leafPairs_def intersectOctreeNodesRecursive.simps [of nodeA nodeB])
  next
    case b
    then show ?thesis
      by (simp add: leafPairs_def intersectOctreeNodesRecursive.simps [of nodeA nodeB])
  next
    case c
    let ?g = "\<lambda>cb. case cb of None \<Rightarrow> [] | Some b \<Rightarrow> leafPairs nodeA b"
    let ?f = "\<lambda>cb acc. case cb of None \<Rightarrow> acc | Some b \<Rightarrow> intersectOctreeNodesRecursive nodeA b acc"
    have step: "\<And>x acc. x \<in> set (children nodeB) \<Longrightarrow> ?f x acc = acc @ ?g x"
      using c "1.IH"(1) by (auto split: option.splits)
    have "\<And>acc. fold ?f (children nodeB) acc = acc @ concat (map ?g (children nodeB))"
      using step by (rule fold_append_concat)
    then show ?thesis
      using c by (simp add: leafPairs_def intersectOctreeNodesRecursive.simps [of nodeA nodeB])
  next
    case d
    let ?g = "\<lambda>ca. case ca of None \<Rightarrow> [] | Some a \<Rightarrow> leafPairs a nodeB"
    let ?f = "\<lambda>ca acc. case ca of None \<Rightarrow> acc | Some a \<Rightarrow> intersectOctreeNodesRecursive a nodeB acc"
    have step: "\<And>x acc. x \<in> set (children nodeA) \<Longrightarrow> ?f x acc = acc @ ?g x"
      using d "1.IH"(2) by (auto split: option.splits)
    have "\<And>acc. fold ?f (children nodeA) acc = acc @ concat (map ?g (children nodeA))"
      using step by (rule fold_append_concat)
    then show ?thesis
      using d by (simp add: leafPairs_def intersectOctreeNodesRecursive.simps [of nodeA nodeB])
  next
    case e
    let ?g = "\<lambda>ca cb. if ca \<noteq> None \<and> cb \<noteq> None then leafPairs (the ca) (the cb) else []"
    let ?f = "\<lambda>ca cb acc. if ca \<noteq> None \<and> cb \<noteq> None
                then intersectOctreeNodesRecursive (the ca) (the cb) acc else acc"
    have inner: "fold (?f x) (children nodeB) acc = acc @ concat (map (?g x) (children nodeB))"
      if "x \<in> set (children nodeA)" for x acc
    proof (rule fold_append_concat)
      fix y acc'
      assume "y \<in> set (children nodeB)"
      then show "?f x y acc' = acc' @ ?g x y"
        using e that "1.IH"(3) [of x y acc'] by simp
    qed
    have "\<And>acc. fold (\<lambda>ca acc. fold (?f ca) (children nodeB) acc) (children nodeA) acc
        = acc @ concat (map (\<lambda>ca. concat (map (?g ca) (children nodeB))) (children nodeA))"
      using inner by (rule fold_append_concat)
    then show ?thesis
      using e by (simp add: leafPairs_def intersectOctreeNodesRecursive.simps [of nodeA nodeB])
  qed
qed

lemma slot_pairs_both:
  "concat (map (\<lambda>cb. if ca \<noteq> None \<and> cb \<noteq> None then f (the ca) (the cb) else []) slots) =
     (case ca of None \<Rightarrow> []
      | Some a \<Rightarrow> concat (map (\<lambda>cb. case cb of None \<Rightarrow> [] | Some b \<Rightarrow> f a b) slots))"
  by (induction slots) (auto split: option.splits)

lemma leafPairs_unfold:
  "leafPairs nodeA nodeB =
     (if \<not> intersects (boundingBox nodeA) (boundingBox nodeB) then []
      else if isLeaf nodeA \<and> isLeaf nodeB then [(nodeA, nodeB)]
      else if isLeaf nodeA then
        concat (map (\<lambda>cb. case cb of None \<Rightarrow> [] | Some b \<Rightarrow> leafPairs nodeA b) (children nodeB))
      else if isLeaf nodeB then
        concat (map (\<lambda>ca. case ca of None \<Rightarrow> [] | Some a \<Rightarrow> leafPairs a nodeB) (children nodeA))
      else
        concat (map (\<lambda>ca. case ca of None \<Rightarrow> []
                      | Some a \<Rightarrow> concat (map (\<lambda>cb. case cb of None \<Rightarrow> []
                                                | Some b \<Rightarrow> leafPairs a b) (children nodeB)))
                    (children nodeA)))"
proof -
  have c: "fold (\<lambda>cb acc. case cb of None \<Rightarrow> acc
                | Some b \<Rightarrow> intersectOctreeNodesRecursive nodeA b acc) (children nodeB) []
        = [] @ concat (map (\<lambda>cb. case cb of None \<Rightarrow> [] | Some b \<Rightarrow> leafPairs nodeA b) (children nodeB))"
    by (rule fold_append_concat) (simp add: traverse_acc split: option.splits)
  have d: "fold (\<lambda>ca acc. case ca of None \<Rightarrow> acc
                | Some a \<Rightarrow> intersectOctreeNodesRecursive a nodeB acc) (children nodeA) []
        = [] @ concat (map (\<lambda>ca. case ca of None \<Rightarrow> [] | Some a \<Rightarrow> leafPairs a nodeB) (children nodeA))"
    by (rule fold_append_concat) (simp add: traverse_acc split: option.splits)
  have inner: "fold (\<lambda>cb acc'. if ca \<noteq> None \<and> cb \<noteq> None
                   then intersectOctreeNodesRecursive (the ca) (the cb) acc' else acc')
                 (children nodeB) acc
      = acc @ (case ca of None \<Rightarrow> []
      | Some a \<Rightarrow> concat (map (\<lambda>cb. case cb of None \<Rightarrow> [] | Some b \<Rightarrow> leafPairs a b) (children nodeB)))" for ca acc
    unfolding slot_pairs_both [symmetric]
    by (rule fold_append_concat) (simp add: traverse_acc)
  have e: "fold (\<lambda>ca acc. fold (\<lambda>cb acc'. if ca \<noteq> None \<and> cb \<noteq> None
                   then intersectOctreeNodesRecursive (the ca) (the cb) acc' else acc')
                 (children nodeB) acc) (children nodeA) []
      = [] @ concat (map (\<lambda>ca. case ca of None \<Rightarrow> []
                      | Some a \<Rightarrow> concat (map (\<lambda>cb. case cb of None \<Rightarrow> []
                                                | Some b \<Rightarrow> leafPairs a b) (children nodeB)))
                    (children nodeA))"
    by (rule fold_append_concat) (rule inner)
  show ?thesis
    unfolding leafPairs_def [of nodeA nodeB]
    by (subst intersectOctreeNodesRecursive.simps) (simp only: c d e append_Nil)
qed

lemma node_pair_induct [case_names step]:
  assumes "\<And>A B. (\<And>b. Some b \<in> set (children B) \<Longrightarrow> P A b) \<Longrightarrow>
                 (\<And>a. Some a \<in> set (children A) \<Longrightarrow> P a B) \<Longrightarrow>
                 (\<And>a b. Some a \<in> set (children A) \<Longrightarrow> Some b \<in> set (children B) \<Longrightarrow> P a b)
                 \<Longrightarrow> P A B"
  shows "P A B"
proof (induction "size A + size B" arbitrary: A B rule: less_induct)
  case less
  show ?case
  proof (rule assms)
    fix b assume "Some b \<in> set (children B)"
    then have "size A + size b < size A + size B" by (simp add: child_size)
    then show "P A b" by (rule less)
  next
    fix a assume "Some a \<in> set (children A)"
    then have "size a + size B < size A + size B" by (simp add: child_size)
    then show "P a B" by (rule less)
  next
    fix a b assume "Some a \<in> set (children A)" "Some b \<in> set (children B)"
    then have "size a + size b < size A + size B" by (simp add: child_size add_less_mono)
    then show "P a b" by (rule less)
  qed
qed

lemma set_leafPairs:
  "set (leafPairs nodeA nodeB) =
     (if \<not> intersects (boundingBox nodeA) (boundingBox nodeB) then {}
      else if isLeaf nodeA \<and> isLeaf nodeB then {(nodeA, nodeB)}
      else if isLeaf nodeA then (\<Union>b \<in> {b. Some b \<in> set (children nodeB)}. set (leafPairs nodeA b))
      else if isLeaf nodeB then (\<Union>a \<in> {a. Some a \<in> set (children nodeA)}. set (leafPairs a nodeB))
      else (\<Union>a \<in> {a. Some a \<in> set (children nodeA)}.
            \<Union>b \<in> {b. Some b \<in> set (children nodeB)}. set (leafPairs a b)))"
  by (subst leafPairs_unfold) (force split: option.splits if_splits)

lemma leafPairs_leaves:
  "(a, b) \<in> set (leafPairs nodeA nodeB) \<Longrightarrow>
     isLeaf a \<and> isLeaf b \<and> intersects (boundingBox a) (boundingBox b)"
proof (induction nodeA nodeB rule: node_pair_induct)
  case (step A B)
  from step.prems show ?case
    by (subst (asm) set_leafPairs) (auto split: if_splits dest: step.IH)
qed

lemma intersects_sym: "intersects a b = intersects b a"
  by (auto simp: intersects_def)

lemma leafPairs_swap:
  "set (leafPairs nodeB nodeA) = prod.swap ` set (leafPairs nodeA nodeB)"
proof (induction nodeA nodeB rule: node_pair_induct)
  case (step A B)
  note L = set_leafPairs [of B A] and R = set_leafPairs [of A B]
  consider (a) "\<not> intersects (boundingBox A) (boundingBox B)"
    | (b) "intersects (boundingBox A) (boundingBox B)" "isLeaf A" "isLeaf B"
    | (c) "intersects (boundingBox A) (boundingBox B)" "isLeaf A" "\<not> isLeaf B"
    | (d) "intersects (boundingBox A) (boundingBox B)" "\<not> isLeaf A" "isLeaf B"
    | (e) "intersects (boundingBox A) (boundingBox B)" "\<not> isLeaf A" "\<not> isLeaf B"
    by blast
  then show ?case
  proof cases
    case a
    then show ?thesis using L R by (simp add: intersects_sym [of "boundingBox B"])
  next
    case b
    then show ?thesis using L R by (simp add: intersects_sym [of "boundingBox B"])
  next
    case c
    then show ?thesis using L R
      by (simp add: intersects_sym [of "boundingBox B"] image_UN step.IH(1))
  next
    case d
    then show ?thesis using L R
      by (simp add: intersects_sym [of "boundingBox B"] image_UN step.IH(2))
  next
    case e
    then have "set (leafPairs B A) =
        (\<Union>b \<in> {b. Some b \<in> set (children B)}.
          \<Union>a \<in> {a. Some a \<in> set (children A)}. prod.swap ` set (leafPairs a b))"
      using L by (simp add: intersects_sym [of "boundingBox B"] step.IH(3))
    also have "\<dots> =
        (\<Union>a \<in> {a. Some a \<in> set (children A)}.
          \<Union>b \<in> {b. Some b \<in> set (children B)}. prod.swap ` set (leafPairs a b))"
      by (rule SUP_commute)
    also have "\<dots> = prod.swap ` set (leafPairs A B)"
      using e R by (simp add: image_UN)
    finally show ?thesis .
  qed
qed

section \<open>Properties of the kernel-vs-kernel query\<close>

lemma inner_hits:
  "fold (\<lambda>triB (trisA, trisB).
           if tt triA triB then (trisA @ [triA], trisB @ [triB]) else (trisA, trisB)) bs (ta, tb) =
     (ta @ map fst (map (\<lambda>triB. (triA, triB)) (filter (tt triA) bs)),
      tb @ map snd (map (\<lambda>triB. (triA, triB)) (filter (tt triA) bs)))"
  by (induction bs arbitrary: ta tb) simp_all

lemma outer_hits:
  "fold (\<lambda>triA accA.
           fold (\<lambda>triB (trisA, trisB).
                   if tt triA triB then (trisA @ [triA], trisB @ [triB]) else (trisA, trisB))
                bs accA) as (ta, tb) =
     (ta @ map fst (concat (map (\<lambda>triA. map (\<lambda>triB. (triA, triB)) (filter (tt triA) bs)) as)),
      tb @ map snd (concat (map (\<lambda>triA. map (\<lambda>triB. (triA, triB)) (filter (tt triA) bs)) as)))"
  by (induction as arbitrary: ta tb) (simp_all add: inner_hits)

lemma testLeafPair_hits:
  "testLeafPair tt nodeA nodeB (ta, tb) =
     (ta @ map fst (pairHits tt nodeA nodeB), tb @ map snd (pairHits tt nodeA nodeB))"
  by (simp add: testLeafPair_def pairHits_def outer_hits)

lemma fold_pairs_hits:
  "fold (\<lambda>(nodeA, nodeB) acc.
           if isLeaf nodeA \<and> isLeaf nodeB then testLeafPair tt nodeA nodeB acc else acc)
        pairs (ta, tb) =
     (ta @ map fst (allHits tt pairs), tb @ map snd (allHits tt pairs))"
proof (induction pairs arbitrary: ta tb)
  case Nil
  show ?case by (simp add: allHits_def)
next
  case (Cons p pairs)
  obtain a b where p: "p = (a, b)" by (cases p)
  show ?case
    using Cons.IH by (simp add: p allHits_def testLeafPair_hits)
qed

lemma testNodePairs_hits:
  "testNodePairs tt pairs = (map fst (allHits tt pairs), map snd (allHits tt pairs))"
  by (simp add: testNodePairs_def fold_pairs_hits)

lemma set_pairHits:
  "set (pairHits tt nodeA nodeB) =
     {(x, y). x \<in> set (triangles nodeA) \<and> y \<in> set (triangles nodeB) \<and> tt x y}"
  by (auto simp: pairHits_def)

lemma set_allHits:
  "set (allHits tt pairs) =
     {(x, y). \<exists>(a, b) \<in> set pairs. isLeaf a \<and> isLeaf b \<and>
        x \<in> set (triangles a) \<and> y \<in> set (triangles b) \<and> tt x y}"
  by (auto simp: allHits_def set_pairHits split: if_splits)

lemma allHits_tt: "(x, y) \<in> set (allHits tt pairs) \<Longrightarrow> tt x y"
  by (auto simp: set_allHits)

lemma intersectKernelKernel_built:
  "intersectKernelKernel tt \<lparr>root = Some rootA\<rparr> (Octree \<lparr>root = Some rootB\<rparr>) =
     Inr ([], map fst (allHits tt (leafPairs rootA rootB)),
              map snd (allHits tt (leafPairs rootA rootB)))"
  by (simp add: intersectKernelKernel_def testNodePairs_hits leafPairs_def)

lemma intersectKernelKernel_Inr:
  assumes "intersectKernelKernel tt this (Octree other) = Inr (msgs, trisA, trisB)"
  obtains rootA rootB where "root this = Some rootA" "root other = Some rootB"
    "msgs = []"
    "trisA = map fst (allHits tt (leafPairs rootA rootB))"
    "trisB = map snd (allHits tt (leafPairs rootA rootB))"
  using assms
  by (auto simp: intersectKernelKernel_def testNodePairs_hits leafPairs_def split: option.splits)

text \<open>
  Claim C10. When the query on two octree kernels returns, the two triangle vectors have
  the same length, and at every index the triangle of the first vector and the triangle
  of the second satisfy the triangle-triangle predicate.
\<close>

theorem hits_are_aligned:
  assumes "intersectKernelKernel tt this (Octree other) = Inr (msgs, trisA, trisB)"
  shows "length trisA = length trisB \<and> (\<forall>i < length trisA. tt (trisA ! i) (trisB ! i))"
proof -
  from assms obtain rootA rootB where
    A: "trisA = map fst (allHits tt (leafPairs rootA rootB))" and
    B: "trisB = map snd (allHits tt (leafPairs rootA rootB))"
    by (rule intersectKernelKernel_Inr)
  let ?H = "allHits tt (leafPairs rootA rootB)"
  have "tt (fst (?H ! i)) (snd (?H ! i))" if "i < length ?H" for i
    using that allHits_tt [of "fst (?H ! i)" "snd (?H ! i)" tt "leafPairs rootA rootB"]
    by simp
  then show ?thesis by (simp add: A B)
qed

lemma separated_not_intersects:
  "px (bmax a) < px (bmin b) \<or> px (bmax b) < px (bmin a) \<or>
   py (bmax a) < py (bmin b) \<or> py (bmax b) < py (bmin a) \<or>
   pz (bmax a) < pz (bmin b) \<or> pz (bmax b) < pz (bmin a) \<longleftrightarrow> \<not> intersects a b"
  by (auto simp: intersects_def)

text \<open>
  Claim C6. When the bounding boxes of the two roots are separated on some axis, the
  query returns a pair of empty vectors.
\<close>

theorem disjoint_roots_empty:
  assumes "root this = Some rootA" and "root other = Some rootB"
    and "px (bmax (boundingBox rootA)) < px (bmin (boundingBox rootB)) \<or>
         px (bmax (boundingBox rootB)) < px (bmin (boundingBox rootA)) \<or>
         py (bmax (boundingBox rootA)) < py (bmin (boundingBox rootB)) \<or>
         py (bmax (boundingBox rootB)) < py (bmin (boundingBox rootA)) \<or>
         pz (bmax (boundingBox rootA)) < pz (bmin (boundingBox rootB)) \<or>
         pz (bmax (boundingBox rootB)) < pz (bmin (boundingBox rootA))"
  shows "intersectKernelKernel tt this (Octree other) = Inr ([], [], [])"
proof -
  have "\<not> intersects (boundingBox rootA) (boundingBox rootB)"
    using assms(3) by (simp add: separated_not_intersects)
  then have "leafPairs rootA rootB = []"
    by (subst leafPairs_unfold) simp
  then show ?thesis
    using assms(1,2)
    by (simp add: intersectKernelKernel_def testNodePairs_def leafPairs_def)
qed

text \<open>
  Claim C7. On a kernel that is not an octree kernel the query reports the error and
  returns a pair of empty vectors. The query is a function of the two kernels and leaves
  both as they are.
\<close>

theorem incompatible_kernel_empty:
  "intersectKernelKernel tt this OtherKernel =
     Inr ([''Cannot intersect octree with other kernel type!''], [], [])"
  by (simp add: intersectKernelKernel_def)

lemma allHits_swap:
  assumes "\<And>x y. tt x y = tt y x"
  shows "set (allHits tt (leafPairs nodeB nodeA)) = prod.swap ` set (allHits tt (leafPairs nodeA nodeB))"
proof -
  have "(x, y) \<in> set (allHits tt (leafPairs nodeB nodeA)) \<longleftrightarrow>
        (y, x) \<in> set (allHits tt (leafPairs nodeA nodeB))" for x y
    unfolding set_allHits leafPairs_swap [of nodeB nodeA]
    using assms by (auto simp: image_iff) 
  then show ?thesis by (force simp: image_iff)
qed

text \<open>
  With a symmetric triangle predicate the two directions of the query return the same
  triangles on either side.
\<close>

lemma query_symmetric:
  assumes tt_sym: "\<And>x y. tt x y = tt y x"
    and ab: "intersectKernelKernel tt kernelA (Octree kernelB) = Inr (msgs, fa, fb)"
    and ba: "intersectKernelKernel tt kernelB (Octree kernelA) = Inr (msgs', fb', fa')"
  shows "set fa = set fa' \<and> set fb = set fb' \<and>
         faceIndex ` set fa = faceIndex ` set fa' \<and> faceIndex ` set fb = faceIndex ` set fb'"
proof -
  from ab obtain rootA rootB where r: "root kernelA = Some rootA" "root kernelB = Some rootB"
    and fa: "fa = map fst (allHits tt (leafPairs rootA rootB))"
    and fb: "fb = map snd (allHits tt (leafPairs rootA rootB))"
    by (rule intersectKernelKernel_Inr)
  from ba obtain rootB' rootA' where r': "root kernelB = Some rootB'" "root kernelA = Some rootA'"
    and fb0: "fb' = map fst (allHits tt (leafPairs rootB' rootA'))"
    and fa0: "fa' = map snd (allHits tt (leafPairs rootB' rootA'))"
    by (rule intersectKernelKernel_Inr)
  from r r' have "rootA' = rootA" "rootB' = rootB" by simp_all
  with fb0 fa0 have fb': "fb' = map fst (allHits tt (leafPairs rootB rootA))"
    and fa': "fa' = map snd (allHits tt (leafPairs rootB rootA))"
    by simp_all
  have "set fa' = snd ` prod.swap ` set (allHits tt (leafPairs rootA rootB))"
    by (simp add: fa' allHits_swap [of tt rootB rootA, OF tt_sym])
  then have 1: "set fa = set fa'" by (simp add: fa image_image)
  have "set fb' = fst ` prod.swap ` set (allHits tt (leafPairs rootA rootB))"
    by (simp add: fb' allHits_swap [of tt rootB rootA, OF tt_sym])
  then have 2: "set fb = set fb'" by (simp add: fb image_image)
  from 1 2 show ?thesis by simp
qed

text \<open>
  Sharing a point does not depend on the order of the two triangles. A triangle holds
  its first vertex, and each coordinate of a point of a triangle lies between the least
  and the greatest of that coordinate over the vertices.
\<close>

lemma intersectTriangleTriangle_sym:
  "intersectTriangleTriangle x y = intersectTriangleTriangle y x"
  by (auto simp: intersectTriangleTriangle_def)

lemma inTriangle_v0: "inTriangle t (v0 t)"
  unfolding inTriangle_def
  by (rule exI [of _ 1], rule exI [of _ 0], rule exI [of _ 0]) simp

lemma shared_vertex_intersect:
  "v0 triA = v0 triB \<Longrightarrow> intersectTriangleTriangle triA triB"
  unfolding intersectTriangleTriangle_def
  using inTriangle_v0 [of triA] inTriangle_v0 [of triB] by auto

lemma convex_upper:
  fixes a b c :: real
  assumes "0 \<le> a" "0 \<le> b" "0 \<le> c" "a + b + c = 1" "x0 \<le> m" "x1 \<le> m" "x2 \<le> m"
  shows "a * x0 + b * x1 + c * x2 \<le> m"
proof -
  have "a * x0 \<le> a * m" "b * x1 \<le> b * m" "c * x2 \<le> c * m"
    using assms by (simp_all add: mult_left_mono)
  then have "a * x0 + b * x1 + c * x2 \<le> (a + b + c) * m"
    by (simp add: distrib_right)
  then show ?thesis using assms(4) by simp
qed

lemma convex_lower:
  fixes a b c :: real
  assumes "0 \<le> a" "0 \<le> b" "0 \<le> c" "a + b + c = 1" "m \<le> x0" "m \<le> x1" "m \<le> x2"
  shows "m \<le> a * x0 + b * x1 + c * x2"
proof -
  have "a * m \<le> a * x0" "b * m \<le> b * x1" "c * m \<le> c * x2"
    using assms by (simp_all add: mult_left_mono)
  then have "(a + b + c) * m \<le> a * x0 + b * x1 + c * x2"
    by (simp add: distrib_right)
  then show ?thesis using assms(4) by simp
qed

lemma separated_no_intersect:
  assumes "px (v0 triA) \<le> m" "px (v1 triA) \<le> m" "px (v2 triA) \<le> m"
    and "m < n" "n \<le> px (v0 triB)" "n \<le> px (v1 triB)" "n \<le> px (v2 triB)"
  shows "\<not> intersectTriangleTriangle triA triB"
proof
  assume "intersectTriangleTriangle triA triB"
  then obtain p where a: "inTriangle triA p" and b: "inTriangle triB p"
    by (auto simp: intersectTriangleTriangle_def)
  from a assms(1-3) have "px p \<le> m"
    by (auto simp: inTriangle_def intro: convex_upper)
  moreover from b assms(5-7) have "n \<le> px p"
    by (auto simp: inTriangle_def intro: convex_lower)
  ultimately show False using assms(4) by simp
qed

text \<open>
  Claim C5. The query is symmetric as sets: when \<open>A.intersect(B)\<close> returns \<open>(fa, fb)\<close>
  and \<open>B.intersect(A)\<close> returns \<open>(fb', fa')\<close>, then \<open>fa\<close> and \<open>fa'\<close> hold the same
  triangles, and so the same face ids, and likewise \<open>fb\<close> and \<open>fb'\<close>.
\<close>

theorem kernel_kernel_symmetric:
  assumes ab: "intersectKernelKernel intersectTriangleTriangle kernelA (Octree kernelB)
                 = Inr (msgs, fa, fb)"
    and ba: "intersectKernelKernel intersectTriangleTriangle kernelB (Octree kernelA)
                 = Inr (msgs', fb', fa')"
  shows "set fa = set fa' \<and> set fb = set fb' \<and>
         faceIndex ` set fa = faceIndex ` set fa' \<and> faceIndex ` set fb = faceIndex ` set fb'"
  using intersectTriangleTriangle_sym ab ba by (rule query_symmetric)

section \<open>Properties of insertion\<close>

lemma slot_loop:
  "fold (\<lambda>c st. if c \<noteq> None \<and> P (the c) then (fst st @ [Some (f (the c))], True)
                 else (fst st @ [c], snd st)) slots (acc, flag) =
     (acc @ map (\<lambda>c. case c of None \<Rightarrow> None
                   | Some ch \<Rightarrow> if P ch then Some (f ch) else Some ch) slots,
      flag \<or> (\<exists>ch. Some ch \<in> set slots \<and> P ch))"
  by (induction slots arbitrary: acc flag) (auto split: option.splits)

lemma insertTriangle_overflow:
  "depth > MAX_DEPTH \<Longrightarrow> insertTriangle node triangle depth = pushTriangle node triangle"
  by (subst insertTriangle.simps) simp

lemma insertTriangle_room:
  "\<not> depth > MAX_DEPTH \<Longrightarrow> isLeaf node \<Longrightarrow>
   int (length (triangles node)) < MAX_TRIANGLES_PER_NODE \<Longrightarrow>
   insertTriangle node triangle depth = pushTriangle node triangle"
  by (subst insertTriangle.simps) simp

lemma insertTriangle_full:
  "\<not> depth > MAX_DEPTH \<Longrightarrow> isLeaf node \<Longrightarrow>
   \<not> int (length (triangles node)) < MAX_TRIANGLES_PER_NODE \<Longrightarrow>
   insertTriangle node triangle depth = insertTriangle (splitNode node) triangle (depth + 1)"
  by (subst insertTriangle.simps) simp

lemma insertTriangle_interior:
  "\<not> depth > MAX_DEPTH \<Longrightarrow> \<not> isLeaf node \<Longrightarrow>
   insertTriangle node triangle depth =
     Node (boundingBox node)
       (map (\<lambda>c. case c of None \<Rightarrow> None
              | Some ch \<Rightarrow>
                  if boxContainsAnyVertices (boundingBox ch) triangle
                  then Some (insertTriangle ch triangle (depth + 1)) else Some ch)
            (children node))
       (if \<exists>ch. Some ch \<in> set (children node) \<and> boxContainsAnyVertices (boundingBox ch) triangle
        then triangles node else triangles node @ [triangle])"
  by (subst insertTriangle.simps)
     (simp add: slot_loop [where P = "\<lambda>ch. boxContainsAnyVertices (boundingBox ch) triangle"
          and f = "\<lambda>ch. insertTriangle ch triangle (depth + 1)"] del: not_None_eq)

lemma length_fold_moveTriangle:
  "length (fold (moveTriangle boxes) tris kids) = length kids"
  by (induction tris arbitrary: kids) (simp_all add: moveTriangle_def Let_def split: option.splits)

lemma splitNode_not_leaf: "\<not> isLeaf (splitNode node)"
  by (simp add: splitNode_def Let_def isLeaf_def list_all_iff childBoxes_def length_fold_moveTriangle
       length_0_conv [symmetric] del: length_0_conv)

text \<open>
  Claim C2. \<open>insertTriangle\<close> follows the four steps of Insert: beyond \<open>MAX_DEPTH\<close> the
  triangle is appended to the node; a leaf with room takes the triangle; a full leaf is
  split, is then no leaf any more, and the insertion is retried on it one level deeper;
  on an interior node the triangle is inserted one level deeper into every child whose
  box contains one of its vertices, and appended to the node itself exactly when there
  is no such child.
\<close>

theorem insertTriangle_steps:
  "insertTriangle node triangle depth =
     (if depth > MAX_DEPTH then pushTriangle node triangle
      else if isLeaf node then
        (if int (length (triangles node)) < MAX_TRIANGLES_PER_NODE
         then pushTriangle node triangle
         else insertTriangle (splitNode node) triangle (depth + 1))
      else
        Node (boundingBox node)
          (map (\<lambda>c. case c of None \<Rightarrow> None
                 | Some ch \<Rightarrow>
                     if boxContainsAnyVertices (boundingBox ch) triangle
                     then Some (insertTriangle ch triangle (depth + 1)) else Some ch)
               (children node))
          (if \<exists>ch. Some ch \<in> set (children node) \<and>
                 boxContainsAnyVertices (boundingBox ch) triangle
           then triangles node else triangles node @ [triangle]))
   \<and> \<not> isLeaf (splitNode node)
   \<and> pushTriangle node triangle =
       Node (boundingBox node) (children node) (triangles node @ [triangle])"
  using insertTriangle_overflow [of depth node triangle]
    insertTriangle_room [of depth node triangle]
    insertTriangle_full [of depth node triangle]
    insertTriangle_interior [of depth node triangle]
  by (simp add: splitNode_not_leaf pushTriangle_def)

section \<open>Properties of rounding\<close>

lemma roundHalfEven_of_int [simp]: "roundHalfEven (of_int n) = n"
  by (simp add: roundHalfEven_def)

lemma roundHalfEven_bounds:
  "of_int (roundHalfEven y) \<le> y + 1 / 2 \<and> y - 1 / 2 \<le> of_int (roundHalfEven y)"
  unfolding roundHalfEven_def Let_def by (auto; linarith)

lemma roundHalfEven_mono_int:
  "of_int n \<le> y \<Longrightarrow> n \<le> roundHalfEven y"
  unfolding roundHalfEven_def Let_def by (auto simp: le_floor_iff; linarith)

lemma roundHalfEven_le_int:
  "y \<le> of_int n \<Longrightarrow> roundHalfEven y \<le> n"
  unfolding roundHalfEven_def Let_def
  by (auto simp: ; linarith)


lemma roundDouble_0 [simp]: "roundDouble 0 = 0"
  by (simp add: roundDouble_def)

lemma roundDouble_exact:
  assumes "x / 2 powr (of_int \<lfloor>log 2 \<bar>x\<bar>\<rfloor> - 52) = of_int m"
  shows "roundDouble x = x"
proof (cases "x = 0")
  case True
  then show ?thesis by simp
next
  case False
  let ?u = "2 powr (of_int \<lfloor>log 2 \<bar>x\<bar>\<rfloor> - 52) :: real"
  have u: "?u > 0" by simp
  have "roundDouble x = of_int (roundHalfEven (x / ?u)) * ?u"
    using False by (simp add: roundDouble_def Let_def)
  also have "\<dots> = of_int m * ?u" by (simp only: assms roundHalfEven_of_int)
  also have "\<dots> = x" using assms u by (simp add: field_simps)
  finally show ?thesis .
qed

lemma floor_log2_scale:
  assumes "x \<noteq> 0"
  shows "\<lfloor>log 2 \<bar>x * 2 powr of_int k\<bar>\<rfloor> = \<lfloor>log 2 \<bar>x\<bar>\<rfloor> + k"
proof -
  have "\<bar>x * 2 powr of_int k\<bar> = \<bar>x\<bar> * 2 powr of_int k" by (simp add: abs_mult)
  then have "log 2 \<bar>x * 2 powr of_int k\<bar> = log 2 \<bar>x\<bar> + of_int k"
    using assms by (simp add: log_mult)
  then show ?thesis by simp
qed

lemma roundDouble_scale:
  "roundDouble (x * 2 powr of_int k) = roundDouble x * 2 powr of_int k"
proof (cases "x = 0")
  case True
  then show ?thesis by simp
next
  case False
  let ?u = "2 powr (of_int \<lfloor>log 2 \<bar>x\<bar>\<rfloor> - 52) :: real"
  let ?s = "2 powr of_int k :: real"
  have ulp: "2 powr (of_int \<lfloor>log 2 \<bar>x * ?s\<bar>\<rfloor> - 52) = ?u * ?s"
    unfolding floor_log2_scale [OF False]
    by (simp add: powr_add [symmetric] algebra_simps)
  have q: "x * ?s / (?u * ?s) = x / ?u" by simp
  have "roundDouble (x * ?s) = of_int (roundHalfEven (x * ?s / (?u * ?s))) * (?u * ?s)"
    using False by (simp add: roundDouble_def Let_def ulp del: times_divide_eq_left)
  also have "\<dots> = of_int (roundHalfEven (x / ?u)) * ?u * ?s"
    by (simp only: q mult.assoc)
  also have "\<dots> = roundDouble x * ?s"
    using False by (simp add: roundDouble_def Let_def)
  finally show ?thesis .
qed

lemma roundDouble_half: "roundDouble (x / 2) = roundDouble x / 2"
  using roundDouble_scale [of x "- 1"] by (simp add: powr_minus field_simps)

lemma roundDouble_double: "roundDouble (x * 2) = roundDouble x * 2"
  using roundDouble_scale [of x 1] by simp

lemma floor_log2_int_bounds:
  assumes "n \<noteq> 0" and "\<bar>n\<bar> < 2 ^ 53"
  shows "0 \<le> \<lfloor>log 2 \<bar>of_int n :: real\<bar>\<rfloor> \<and> \<lfloor>log 2 \<bar>of_int n :: real\<bar>\<rfloor> \<le> 52"
proof -
  have one: "1 \<le> \<bar>of_int n :: real\<bar>" using assms(1) by (simp flip: of_int_abs)
  then have "0 \<le> log 2 \<bar>of_int n :: real\<bar>" by simp
  moreover have "\<bar>of_int n :: real\<bar> < 2 powr 53"
  proof -
    have "(of_int \<bar>n\<bar> :: real) < of_int (2 ^ 53)" using assms(2) by (simp only: of_int_less_iff)
    then show ?thesis by simp
  qed
  then have "log 2 \<bar>of_int n :: real\<bar> < 53"
    using one by (subst log_less_iff) simp_all
  ultimately show ?thesis by (simp add: floor_le_iff)
qed

lemma roundDouble_of_int:
  assumes "\<bar>n\<bar> < 2 ^ 53"
  shows "roundDouble (of_int n) = of_int n"
proof (cases "n = 0")
  case True
  then show ?thesis by simp
next
  case False
  let ?e = "\<lfloor>log 2 \<bar>of_int n :: real\<bar>\<rfloor>"
  from floor_log2_int_bounds [OF False assms] have e: "0 \<le> ?e" "?e \<le> 52" by simp_all
  have "(2 :: real) powr (of_int ?e - 52) = 1 / 2 ^ nat (52 - ?e)"
  proof -
    have "of_int ?e - (52 :: real) = - real (nat (52 - ?e))" using e by simp
    then show ?thesis by (simp only: powr_minus powr_realpow zero_less_numeral inverse_eq_divide)
  qed
  then have "of_int n / (2 :: real) powr (of_int ?e - 52) = of_int (n * 2 ^ nat (52 - ?e))"
    by simp
  then show ?thesis by (rule roundDouble_exact)
qed

lemma roundDouble_Ints: "x \<in> \<int> \<Longrightarrow> \<bar>x\<bar> < 2 ^ 53 \<Longrightarrow> roundDouble x = x"
  by (auto elim!: Ints_cases simp: roundDouble_of_int simp flip: of_int_abs)




lemma roundDouble_dyadic:
  "\<bar>n\<bar> < 2 ^ 53 \<Longrightarrow> roundDouble (of_int n * 2 powr of_int k) = of_int n * 2 powr of_int k"
  by (simp add: roundDouble_scale roundDouble_of_int)





lemma roundDouble_of_int_le:
  assumes "\<bar>n\<bar> \<le> 2 ^ 53"
  shows "roundDouble (of_int n) = of_int n"
proof (cases "\<bar>n\<bar> < 2 ^ 53")
  case True
  then show ?thesis by (rule roundDouble_of_int)
next
  case False
  with assms have "n = 2 ^ 53 \<or> n = - (2 ^ 53)" by linarith
  then obtain j :: int where j: "\<bar>j\<bar> < 2 ^ 53" "(of_int n :: real) = of_int j * 2 powr of_int 53"
  proof
    assume "n = 2 ^ 53"
    then have "(of_int n :: real) = of_int 1 * 2 powr of_int 53" by simp
    then show ?thesis using that [of 1] by simp
  next
    assume "n = - (2 ^ 53)"
    then have "(of_int n :: real) = of_int (- 1) * 2 powr of_int 53" by simp
    then show ?thesis using that [of "- 1"] by simp
  qed
  show ?thesis unfolding j(2) by (rule roundDouble_dyadic [OF j(1)])
qed

lemma roundDouble_idem: "roundDouble (roundDouble x) = roundDouble x"
proof (cases "x = 0")
  case True
  then show ?thesis by simp
next
  case False
  let ?e = "\<lfloor>log 2 \<bar>x\<bar>\<rfloor>"
  let ?u = "2 powr of_int (?e - 52) :: real"
  let ?m = "roundHalfEven (x / ?u)"
  have rd: "roundDouble x = of_int ?m * ?u"
    using False by (simp add: roundDouble_def Let_def)
  have lg: "log 2 \<bar>x\<bar> < of_int ?e + 1" by linarith
  have "(1 :: real) < 2" "0 < \<bar>x\<bar>" using False by simp_all
  from iffD1 [OF log_less_iff [OF this] lg]
  have "\<bar>x\<bar> < 2 powr (of_int ?e + 1)" .
  also have "\<dots> = of_int (2 ^ 53) * ?u"
    by (simp add: powr_diff powr_add)
  finally have "\<bar>x\<bar> / ?u < of_int (2 ^ 53)"
    by (simp add: pos_divide_less_eq)
  then have "\<bar>x / ?u\<bar> < of_int (2 ^ 53)" by (simp add: abs_divide)
  then have up: "x / ?u \<le> of_int (2 ^ 53)" and low: "of_int (- (2 ^ 53)) \<le> x / ?u"
    unfolding of_int_minus by linarith+
  have "?m \<le> 2 ^ 53" using up by (rule roundHalfEven_le_int)
  moreover have "- (2 ^ 53) \<le> ?m" using low by (rule roundHalfEven_mono_int)
  ultimately have m: "\<bar>?m\<bar> \<le> 2 ^ 53" by linarith
  have "roundDouble (of_int ?m * ?u) = roundDouble (of_int ?m) * ?u"
    by (rule roundDouble_scale)
  also have "\<dots> = of_int ?m * ?u"
    by (simp only: roundDouble_of_int_le [OF m])
  finally show ?thesis by (simp only: rd)
qed

section \<open>Evaluation on concrete trees\<close>

lemmas geom_defs = mkPoint_def padd_def psub_def pdiv_def mkBox_def center_def contains_def
  intersects_def boxContainsAnyVertices_def boxContainsAllVertices_def sampleTriangle_def
  dadd_def dsub_def dmul_def ddiv_def roundDouble_Ints roundDouble_half

lemma isLeaf_empty_slots [simp]: "isLeaf (Node bb (replicate n None) tris)"
  by (simp add: isLeaf_def list_all_iff)

lemma isLeaf_newNode [simp]: "isLeaf (newNode bb)"
  by (simp add: newNode_def)

lemma not_isLeaf_slot [simp]: "\<not> isLeaf (Node bb (Some c # slots) tris)"
  by (simp add: isLeaf_def)

lemma upt8: "[0..<8] = [0, 1, 2, 3, 4, 5, 6, 7]"
  by (simp add: upt_rec)

lemma ex_slot_iff:
  "(\<exists>ch. Some ch \<in> set slots \<and> P ch) \<longleftrightarrow>
     list_ex (\<lambda>c. case c of None \<Rightarrow> False | Some ch \<Rightarrow> P ch) slots"
  unfolding list_ex_iff by (force split: option.splits)

lemma insertTriangle_interior_slots:
  "\<not> depth > MAX_DEPTH \<Longrightarrow> \<not> isLeaf node \<Longrightarrow>
   insertTriangle node triangle depth =
     Node (boundingBox node)
       (map (\<lambda>c. case c of None \<Rightarrow> None
              | Some ch \<Rightarrow>
                  if boxContainsAnyVertices (boundingBox ch) triangle
                  then Some (insertTriangle ch triangle (depth + 1)) else Some ch)
            (children node))
       (if list_ex (\<lambda>c. case c of None \<Rightarrow> False
                      | Some ch \<Rightarrow> boxContainsAnyVertices (boundingBox ch) triangle)
                   (children node)
        then triangles node else triangles node @ [triangle])"
  unfolding ex_slot_iff [symmetric] by (rule insertTriangle_interior)

lemma split_sample:
  "splitNode (Node (mkBox (mkPoint 0 0 0) (mkPoint 4 4 4)) (replicate 8 None)
                        [sampleTriangle 0 (mkPoint 1 1 1)]) =
     Node (mkBox (mkPoint 0 0 0) (mkPoint 4 4 4))
       [Some (Node (mkBox (mkPoint 0 0 0) (mkPoint 2 2 2)) (replicate 8 None)
                [sampleTriangle 0 (mkPoint 1 1 1)]),
        Some (newNode (mkBox (mkPoint 2 0 0) (mkPoint 4 2 2))),
        Some (newNode (mkBox (mkPoint 2 0 2) (mkPoint 4 2 4))),
        Some (newNode (mkBox (mkPoint 0 0 2) (mkPoint 2 2 4))),
        Some (newNode (mkBox (mkPoint 0 2 0) (mkPoint 2 4 2))),
        Some (newNode (mkBox (mkPoint 2 2 0) (mkPoint 4 4 2))),
        Some (newNode (mkBox (mkPoint 2 2 2) (mkPoint 4 4 4))),
        Some (newNode (mkBox (mkPoint 0 2 2) (mkPoint 2 4 4)))]
       []"
  by (simp add: splitNode_def childBoxes_def moveTriangle_def firstContaining_def
      upt8 newNode_def pushTriangle_def geom_defs Let_def)

lemma sampleTreeA_eq:
  "sampleTreeA =
     Node (mkBox (mkPoint 0 0 0) (mkPoint 4 4 4))
       [Some (Node (mkBox (mkPoint 0 0 0) (mkPoint 2 2 2)) (replicate 8 None)
                [sampleTriangle 0 (mkPoint 1 1 1)]),
        Some (newNode (mkBox (mkPoint 2 0 0) (mkPoint 4 2 2))),
        Some (newNode (mkBox (mkPoint 2 0 2) (mkPoint 4 2 4))),
        Some (newNode (mkBox (mkPoint 0 0 2) (mkPoint 2 2 4))),
        Some (newNode (mkBox (mkPoint 0 2 0) (mkPoint 2 4 2))),
        Some (newNode (mkBox (mkPoint 2 2 0) (mkPoint 4 4 2))),
        Some (newNode (mkBox (mkPoint 2 2 2) (mkPoint 4 4 4))),
        Some (newNode (mkBox (mkPoint 0 2 2) (mkPoint 2 4 4)))]
       [sampleTriangle 1 (mkPoint 5 5 5)]"
  unfolding sampleTreeA_def split_sample
  by (subst insertTriangle_interior_slots)
     (simp_all add: MAX_DEPTH_def newNode_def geom_defs)


lemma leafPairs_sample:
  "leafPairs sampleTreeA sampleTreeB =
     [(Node (mkBox (mkPoint 0 0 0) (mkPoint 2 2 2)) (replicate 8 None)
                [sampleTriangle 0 (mkPoint 1 1 1)], sampleTreeB)]"
  unfolding sampleTreeA_eq sampleTreeB_def
  apply (subst leafPairs_unfold)
  apply (simp add: geom_defs)
  apply (subst leafPairs_unfold, simp add: newNode_def geom_defs)+
  done

section \<open>Interior triangles and the query\<close>

lemma stripInterior_fields [simp]:
  "boundingBox (stripInterior n) = boundingBox n"
  "children (stripInterior n) = map (map_option stripInterior) (children n)"
  by (cases n; simp)+

lemma isLeaf_stripInterior [simp]: "isLeaf (stripInterior n) = isLeaf n"
  by (cases n) (auto simp: isLeaf_def list_all_iff)

lemma stripInterior_leaf: "isLeaf n \<Longrightarrow> stripInterior n = n"
  by (cases n) (auto simp: isLeaf_def list_all_iff intro: map_idI)

lemma leafPairs_stripInterior:
  "leafPairs (stripInterior nodeA) (stripInterior nodeB) = leafPairs nodeA nodeB"
proof (induction nodeA nodeB rule: node_pair_induct)
  case (step A B)
  have c: "concat (map (\<lambda>cb. case cb of None \<Rightarrow> [] | Some b \<Rightarrow> leafPairs (stripInterior A) b)
                  (map (map_option stripInterior) (children B)))
      = concat (map (\<lambda>cb. case cb of None \<Rightarrow> [] | Some b \<Rightarrow> leafPairs A b) (children B))"
    unfolding map_map
    by (rule arg_cong [where f = concat], rule map_cong)
       (auto split: option.splits simp: step.IH(1))
  have d: "concat (map (\<lambda>ca. case ca of None \<Rightarrow> [] | Some a \<Rightarrow> leafPairs a (stripInterior B))
                  (map (map_option stripInterior) (children A)))
      = concat (map (\<lambda>ca. case ca of None \<Rightarrow> [] | Some a \<Rightarrow> leafPairs a B) (children A))"
    unfolding map_map
    by (rule arg_cong [where f = concat], rule map_cong)
       (auto split: option.splits simp: step.IH(2))
  have inner: "concat (map ((\<lambda>cb. case cb of None \<Rightarrow> [] | Some b \<Rightarrow> leafPairs (stripInterior a) b)
                       \<circ> map_option stripInterior) (children B))
      = concat (map (\<lambda>cb. case cb of None \<Rightarrow> [] | Some b \<Rightarrow> leafPairs a b) (children B))"
    if "Some a \<in> set (children A)" for a
    by (rule arg_cong [where f = concat], rule map_cong)
       (auto split: option.splits simp: step.IH(3) [OF that])
  have e: "concat (map (\<lambda>ca. case ca of None \<Rightarrow> []
              | Some a \<Rightarrow> concat (map (\<lambda>cb. case cb of None \<Rightarrow> [] | Some b \<Rightarrow> leafPairs a b)
                                (map (map_option stripInterior) (children B))))
                  (map (map_option stripInterior) (children A)))
      = concat (map (\<lambda>ca. case ca of None \<Rightarrow> []
              | Some a \<Rightarrow> concat (map (\<lambda>cb. case cb of None \<Rightarrow> [] | Some b \<Rightarrow> leafPairs a b)
                                (children B)))
                  (children A))"
    unfolding map_map
    by (rule arg_cong [where f = concat], rule map_cong)
       (auto split: option.splits simp: inner simp del: map_map)
  show ?case
    apply (subst leafPairs_unfold)
    apply (subst (2) leafPairs_unfold)
    apply (simp only: stripInterior_fields isLeaf_stripInterior c d e)
    apply (simp add: stripInterior_leaf)
    done
qed

lemma intersectKernelKernel_stripKernel:
  "intersectKernelKernel tt (stripKernel kernelA) (Octree (stripKernel kernelB)) =
     intersectKernelKernel tt kernelA (Octree kernelB)"
  by (cases "root kernelA"; cases "root kernelB")
     (simp_all add: intersectKernelKernel_def stripKernel_def leafPairs_def [symmetric]
        leafPairs_stripInterior)

lemma traversal_is_leafPairs:
  "intersectOctreeNodesRecursive nodeA nodeB [] = leafPairs nodeA nodeB"
  by (simp add: leafPairs_def)

text \<open>
  Claim C1. Every pair of nodes that the traversal emits consists of two leaves whose
  bounding boxes overlap. Consequently the triangles stored at interior nodes never reach
  the triangle test: emptying the triangle vectors of all interior nodes of both trees
  leaves the outcome of the query as it is.
\<close>

theorem traversal_emits_leaf_pairs:
  "(\<forall>(a, b) \<in> set (intersectOctreeNodesRecursive nodeA nodeB []).
      isLeaf a \<and> isLeaf b \<and> intersects (boundingBox a) (boundingBox b)) \<and>
   intersectKernelKernel tt (stripKernel kernelA) (Octree (stripKernel kernelB)) =
     intersectKernelKernel tt kernelA (Octree kernelB)"
  using leafPairs_leaves [of _ _ nodeA nodeB]
  by (auto simp: traversal_is_leafPairs intersectKernelKernel_stripKernel)

section \<open>Concrete runs of the query\<close>

lemma leafPairs_sample_rev:
  "leafPairs sampleTreeB sampleTreeA =
     [(sampleTreeB, Node (mkBox (mkPoint 0 0 0) (mkPoint 2 2 2)) (replicate 8 None)
                [sampleTriangle 0 (mkPoint 1 1 1)])]"
  unfolding sampleTreeA_eq sampleTreeB_def
  apply (subst leafPairs_unfold)
  apply (simp add: geom_defs)
  apply (subst leafPairs_unfold, simp add: newNode_def geom_defs)+
  done

lemma query_sample:
  "intersectKernelKernel shareVertex \<lparr>root = Some sampleTreeA\<rparr> (Octree \<lparr>root = Some sampleTreeB\<rparr>)
     = Inr ([], [sampleTriangle 0 (mkPoint 1 1 1)], [sampleTriangle 7 (mkPoint 1 1 1)])"
  unfolding intersectKernelKernel_built leafPairs_sample
  by (simp add: allHits_def pairHits_def sampleTreeB_def shareVertex_def vertexList_def geom_defs)

lemma query_sample_rev:
  "intersectKernelKernel shareVertex \<lparr>root = Some sampleTreeB\<rparr> (Octree \<lparr>root = Some sampleTreeA\<rparr>)
     = Inr ([], [sampleTriangle 7 (mkPoint 1 1 1)], [sampleTriangle 0 (mkPoint 1 1 1)])"
  unfolding intersectKernelKernel_built leafPairs_sample_rev
  by (simp add: allHits_def pairHits_def sampleTreeB_def shareVertex_def vertexList_def geom_defs)

theorem traversal_emits_leaf_pairs_witness:
  "(sampleLeafA, sampleTreeB) \<in> set (intersectOctreeNodesRecursive sampleTreeA sampleTreeB []) \<and>
   isLeaf sampleLeafA \<and> isLeaf sampleTreeB \<and>
   intersects (boundingBox sampleLeafA) (boundingBox sampleTreeB) \<and>
   intersectKernelKernel shareVertex (stripKernel \<lparr>root = Some sampleTreeA\<rparr>)
       (Octree (stripKernel \<lparr>root = Some sampleTreeB\<rparr>)) =
     Inr ([], [sampleTriangle 0 (mkPoint 1 1 1)], [sampleTriangle 7 (mkPoint 1 1 1)])"
proof -
  have m: "(sampleLeafA, sampleTreeB) \<in> set (intersectOctreeNodesRecursive sampleTreeA sampleTreeB [])"
    by (simp add: traversal_is_leafPairs leafPairs_sample sampleLeafA_def)
  show ?thesis
    using m traversal_emits_leaf_pairs [of sampleTreeA sampleTreeB shareVertex
        "\<lparr>root = Some sampleTreeA\<rparr>" "\<lparr>root = Some sampleTreeB\<rparr>"]
    by (auto simp: query_sample)
qed

theorem hits_are_aligned_witness:
  "intersectKernelKernel shareVertex \<lparr>root = Some sampleTreeA\<rparr> (Octree \<lparr>root = Some sampleTreeB\<rparr>)
     = Inr ([], [sampleTriangle 0 (mkPoint 1 1 1)], [sampleTriangle 7 (mkPoint 1 1 1)]) \<and>
   length [sampleTriangle 0 (mkPoint 1 1 1)] = length [sampleTriangle 7 (mkPoint 1 1 1)] \<and>
   shareVertex (sampleTriangle 0 (mkPoint 1 1 1)) (sampleTriangle 7 (mkPoint 1 1 1))"
  using hits_are_aligned [OF query_sample] query_sample by simp

theorem disjoint_roots_empty_witness:
  "pz (bmax (boundingBox sampleTreeB)) < pz (bmin (boundingBox sampleTreeC)) \<and>
   intersectKernelKernel shareVertex \<lparr>root = Some sampleTreeB\<rparr> (Octree \<lparr>root = Some sampleTreeC\<rparr>)
     = Inr ([], [], [])"
proof -
  have sep: "pz (bmax (boundingBox sampleTreeB)) < pz (bmin (boundingBox sampleTreeC))"
    by (simp add: sampleTreeB_def sampleTreeC_def geom_defs)
  show ?thesis
    using sep disjoint_roots_empty [of "\<lparr>root = Some sampleTreeB\<rparr>" sampleTreeB
        "\<lparr>root = Some sampleTreeC\<rparr>" sampleTreeC shareVertex]
    by simp
qed

lemma sample_triangles_meet:
  "intersectTriangleTriangle (sampleTriangle 0 (mkPoint 1 1 1)) (sampleTriangle 7 (mkPoint 1 1 1))"
  "intersectTriangleTriangle (sampleTriangle 7 (mkPoint 1 1 1)) (sampleTriangle 0 (mkPoint 1 1 1))"
  by (rule shared_vertex_intersect, simp add: sampleTriangle_def)+

lemma sample_triangles_apart:
  "\<not> intersectTriangleTriangle (sampleTriangle 0 (mkPoint 1 1 1)) (sampleTriangle 8 (mkPoint 6 5 5))"
  "\<not> intersectTriangleTriangle (sampleTriangle 8 (mkPoint 6 5 5)) (sampleTriangle 0 (mkPoint 1 1 1))"
proof -
  show a: "\<not> intersectTriangleTriangle (sampleTriangle 0 (mkPoint 1 1 1))
             (sampleTriangle 8 (mkPoint 6 5 5))"
    by (rule separated_no_intersect [where m = 2 and n = 6])
       (simp_all add: sampleTriangle_def mkPoint_def)
  then show "\<not> intersectTriangleTriangle (sampleTriangle 8 (mkPoint 6 5 5))
             (sampleTriangle 0 (mkPoint 1 1 1))"
    by (simp add: intersectTriangleTriangle_sym [of "sampleTriangle 8 (mkPoint 6 5 5)"])
qed

lemma query_exact_sample:
  "intersectKernelKernel intersectTriangleTriangle
       \<lparr>root = Some sampleTreeA\<rparr> (Octree \<lparr>root = Some sampleTreeB\<rparr>)
     = Inr ([], [sampleTriangle 0 (mkPoint 1 1 1)], [sampleTriangle 7 (mkPoint 1 1 1)])"
  unfolding intersectKernelKernel_built leafPairs_sample
  by (simp add: allHits_def pairHits_def sampleTreeB_def sample_triangles_meet
      sample_triangles_apart)

lemma query_exact_sample_rev:
  "intersectKernelKernel intersectTriangleTriangle
       \<lparr>root = Some sampleTreeB\<rparr> (Octree \<lparr>root = Some sampleTreeA\<rparr>)
     = Inr ([], [sampleTriangle 7 (mkPoint 1 1 1)], [sampleTriangle 0 (mkPoint 1 1 1)])"
  unfolding intersectKernelKernel_built leafPairs_sample_rev
  by (simp add: allHits_def pairHits_def sampleTreeB_def sample_triangles_meet
      sample_triangles_apart)

theorem kernel_kernel_symmetric_witness:
  "intersectKernelKernel intersectTriangleTriangle
       \<lparr>root = Some sampleTreeA\<rparr> (Octree \<lparr>root = Some sampleTreeB\<rparr>)
     = Inr ([], [sampleTriangle 0 (mkPoint 1 1 1)], [sampleTriangle 7 (mkPoint 1 1 1)]) \<and>
   intersectKernelKernel intersectTriangleTriangle
       \<lparr>root = Some sampleTreeB\<rparr> (Octree \<lparr>root = Some sampleTreeA\<rparr>)
     = Inr ([], [sampleTriangle 7 (mkPoint 1 1 1)], [sampleTriangle 0 (mkPoint 1 1 1)]) \<and>
   faceIndex ` set [sampleTriangle 0 (mkPoint 1 1 1)] = {0} \<and>
   faceIndex ` set [sampleTriangle 7 (mkPoint 1 1 1)] = {7}"
  using kernel_kernel_symmetric [OF query_exact_sample query_exact_sample_rev]
    query_exact_sample query_exact_sample_rev
  by (simp add: sampleTriangle_def)

section \<open>Properties of splitting\<close>

lemma length_childBoxes [simp]: "length (childBoxes bb) = 8"
  by (simp add: childBoxes_def Let_def)

lemma firstContaining_Some:
  "firstContaining boxes t = Some i \<Longrightarrow>
     i < 8 \<and> boxContainsAllVertices (boxes ! i) t \<and>
     (\<forall>j<i. \<not> boxContainsAllVertices (boxes ! j) t)"
  by (auto simp: firstContaining_def find_Some_iff)


lemma nearest_scan:
  fixes d :: "nat \<Rightarrow> real"
  assumes "sorted_wrt (<) (k0 # xs)"
    and "fold (\<lambda>i st. if d i < snd st then (i, d i) else st) xs (k0, d k0) = (k, m)"
  shows "m = d k \<and> k \<in> set (k0 # xs) \<and>
         (\<forall>j \<in> set (k0 # xs). d k \<le> d j \<and> (j < k \<longrightarrow> d k < d j))"
  using assms
proof (induction xs arbitrary: k m rule: rev_induct)
  case Nil
  then show ?case by auto
next
  case (snoc x xs)
  let ?step = "\<lambda>i st. if d i < snd st then (i, d i) else st"
  obtain k' m' where prev: "fold ?step xs (k0, d k0) = (k', m')"
    by (cases "fold ?step xs (k0, d k0)")
  have sorted: "sorted_wrt (<) (k0 # xs)" and above: "\<forall>j \<in> set (k0 # xs). j < x"
    using snoc.prems(1) by (auto simp: sorted_wrt_append)
  from snoc.IH [OF sorted prev]
  have IH: "m' = d k'" "k' \<in> set (k0 # xs)"
    "\<forall>j \<in> set (k0 # xs). d k' \<le> d j \<and> (j < k' \<longrightarrow> d k' < d j)"
    by simp_all
  have step: "(k, m) = (if d x < m' then (x, d x) else (k', m'))"
    using snoc.prems(2) by (auto simp: prev split: if_splits)
  show ?case
  proof (cases "d x < m'")
    case True
    with step have km: "k = x" "m = d x" by simp_all
    have "d x < d j" if "j \<in> set (k0 # xs)" for j
      using that True IH(1,3) by (auto dest: order_less_le_trans)
    then show ?thesis using km by (auto simp: less_imp_le)
  next
    case False
    with step have km: "k = k'" "m = m'" by simp_all
    have "k' < x" using IH(2) above by blast
    then show ?thesis using km IH False by auto
  qed
qed

lemma nearestChild_scan:
  "nearestChild boxes t =
     fst (fold (\<lambda>i st. if centreDistance boxes t i < snd st then (i, centreDistance boxes t i) else st)
               [1..<8] (0, centreDistance boxes t 0))"
  by (simp add: nearestChild_def nearestStep_def [abs_def] centreDistance_def Let_def cong: if_cong)

lemma nearestChild_least:
  "nearestChild boxes t < 8 \<and>
   (\<forall>j<8. centreDistance boxes t (nearestChild boxes t) \<le> centreDistance boxes t j) \<and>
   (\<forall>j<nearestChild boxes t.
       centreDistance boxes t (nearestChild boxes t) < centreDistance boxes t j)"
proof -
  obtain k m where km:
    "fold (\<lambda>i st. if centreDistance boxes t i < snd st then (i, centreDistance boxes t i) else st)
               [1..<8] (0, centreDistance boxes t 0) = (k, m)"
    by (cases "fold (\<lambda>i st. if centreDistance boxes t i < snd st
                 then (i, centreDistance boxes t i) else st) [1..<8] (0, centreDistance boxes t 0)")
  then have k: "nearestChild boxes t = k" by (simp add: nearestChild_scan)
  have "0 # [1..<8] = [0..<8]" by (simp add: upt_rec)
  then have s: "sorted_wrt (<) (0 # [1..<8])" and m: "set (0 # [1..<8]) = {..<8}"
    by (simp_all only: sorted_wrt_upt set_upt atLeast0LessThan)
  from nearest_scan [where d = "centreDistance boxes t", OF s km]
  show ?thesis unfolding k m by auto
qed

lemma destinationChild_less: "destinationChild boxes t < 8"
  using nearestChild_least [of boxes t]
  by (auto simp: destinationChild_def dest: firstContaining_Some split: option.splits)

lemma moveTriangle_destination:
  "moveTriangle boxes t kids =
     kids[destinationChild boxes t := pushTriangle (kids ! destinationChild boxes t) t]"
  by (simp add: moveTriangle_def destinationChild_def Let_def split: option.splits)

lemma fold_moveTriangle_nth:
  "length kids = 8 \<Longrightarrow> i < 8 \<Longrightarrow>
   fold (moveTriangle boxes) tris kids ! i =
     Node (boundingBox (kids ! i)) (children (kids ! i))
          (triangles (kids ! i) @ filter (\<lambda>t. destinationChild boxes t = i) tris)"
proof (induction tris arbitrary: kids)
  case Nil
  then show ?case by simp
next
  case (Cons t tris)
  let ?k = "destinationChild boxes t"
  let ?kids = "kids[?k := pushTriangle (kids ! ?k) t]"
  have len: "length ?kids = 8" using Cons.prems by simp
  have k: "?k < length kids" using Cons.prems destinationChild_less [of boxes t] by simp
  show ?case
    using Cons.IH [OF len Cons.prems(2)] Cons.prems k
    by (simp add: moveTriangle_destination nth_list_update pushTriangle_def)
qed

lemma splitNode_children:
  "i < 8 \<Longrightarrow>
   children (splitNode node) ! i =
     Some (Node (childBoxes (boundingBox node) ! i) (replicate 8 None)
             (filter (\<lambda>t. destinationChild (childBoxes (boundingBox node)) t = i)
                     (triangles node)))"
  by (simp add: splitNode_def Let_def length_fold_moveTriangle fold_moveTriangle_nth newNode_def)




lemma sample_boxes:
  "childBoxes (mkBox (mkPoint 0 0 0) (mkPoint 4 4 4)) =
     [mkBox (mkPoint 0 0 0) (mkPoint 2 2 2), mkBox (mkPoint 2 0 0) (mkPoint 4 2 2),
      mkBox (mkPoint 2 0 2) (mkPoint 4 2 4), mkBox (mkPoint 0 0 2) (mkPoint 2 2 4),
      mkBox (mkPoint 0 2 0) (mkPoint 2 4 2), mkBox (mkPoint 2 2 0) (mkPoint 4 4 2),
      mkBox (mkPoint 2 2 2) (mkPoint 4 4 4), mkBox (mkPoint 0 2 2) (mkPoint 2 4 4)]"
  by (simp add: childBoxes_def Let_def geom_defs)

lemma sample_centers:
  "map center (childBoxes (mkBox (mkPoint 0 0 0) (mkPoint 4 4 4))) =
     [mkPoint 1 1 1, mkPoint 3 1 1, mkPoint 3 1 3, mkPoint 1 1 3,
      mkPoint 1 3 1, mkPoint 3 3 1, mkPoint 3 3 3, mkPoint 1 3 3]"
  unfolding sample_boxes by (simp add: geom_defs)












section \<open>Properties of result assembly\<close>

lemma addIntersectedVertices_loop:
  "fold (\<lambda>faceId (faces, messages).
             if faceId < 0 \<or> faceId \<ge> n
             then (faces, messages @ [outOfBoundsMessage faceId])
             else (faces @ [mk faceId], messages))
          ids (faces, messages) =
     (faces @ map mk (filter (\<lambda>f. 0 \<le> f \<and> f < n) ids),
      messages @ map outOfBoundsMessage (filter (\<lambda>f. f < 0 \<or> n \<le> f) ids))"
  by (induction ids arbitrary: faces messages) (auto simp: not_le not_less)

text \<open>
  Claim C8. In the loop over the face ids, an id that is negative or not below the
  polygon count adds no face data and records one message; the loop goes on with the
  remaining ids, and every id in range adds its face data. So the faces added are those
  of the ids in range, in the order of the iteration, and the messages recorded are those
  of the ids out of range.
\<close>

theorem addIntersectedVertices_skips_invalid:
  "addIntersectedVertices meshFn (faces, messages) intersectedFaceIds offsetMatrix =
     (faces @ map (buildFaceData meshFn offsetMatrix)
                  (filter (\<lambda>f. 0 \<le> f \<and> f < numPolygons meshFn) intersectedFaceIds),
      messages @ map outOfBoundsMessage
                  (filter (\<lambda>f. f < 0 \<or> numPolygons meshFn \<le> f) intersectedFaceIds))"
  unfolding addIntersectedVertices_def by (rule addIntersectedVertices_loop)

lemma to_string_5: "to_string 5 = ''5''"
  by (simp add: to_string_def natDigits.simps digitChar_def)

lemma to_string_m12: "to_string (- 12) = ''-12''"
  by (simp add: to_string_def natDigits.simps digitChar_def)


theorem addIntersectedVertices_skips_invalid_witness:
  "addIntersectedVertices sampleMesh ([], []) [5, 0, - 12] (\<lambda>p. p) =
     ([\<lparr>vertices = [mkPoint 0 0 offsetFactor, mkPoint 1 0 offsetFactor,
                      mkPoint 2 0 offsetFactor],
        edges = []\<rparr>],
      [''Face ID out of bounds: 5'', ''Face ID out of bounds: -12''])"
  using addIntersectedVertices_skips_invalid [of sampleMesh "[]" "[]" "[5, 0, - 12]" "\<lambda>p. p"]
  by (simp add: sampleMesh_def buildFaceData_def appendTriangle_def outOfBoundsMessage_def
      to_string_5 to_string_m12 pscale_def padd_def mkPoint_def dadd_def dmul_def
      roundDouble_Ints)
     (simp add: offsetFactor_def roundDouble_idem)

section \<open>Face-id sets\<close>

lemma insertFaceId_distinct: "distinct ids \<Longrightarrow> distinct (insertFaceId f ids)"
  by (simp add: insertFaceId_def)

lemma set_insertFaceId: "set (insertFaceId f ids) = insert f (set ids)"
  by (auto simp: insertFaceId_def)

lemma collapse_loop:
  "distinct ids \<Longrightarrow>
   distinct (fold (\<lambda>t ids. insertFaceId (faceIndex t) ids) tris ids) \<and>
   set (fold (\<lambda>t ids. insertFaceId (faceIndex t) ids) tris ids) = set ids \<union> faceIndex ` set tris"
  by (induction tris arbitrary: ids) (simp_all add: insertFaceId_distinct set_insertFaceId)

lemma collapseFaceIds_set:
  "distinct (collapseFaceIds tris) \<and> set (collapseFaceIds tris) = faceIndex ` set tris"
  using collapse_loop [of "[]" tris] by (simp add: collapseFaceIds_def)

text \<open>
  Claim C4. The two face-id sets that the driver forms from the vectors returned by the
  query hold no face id twice, and hold exactly the face ids of the returned triangles,
  however often a triangle or a face id occurs in the vectors.
\<close>

theorem face_id_sets_deduplicated:
  assumes "intersectFaceIds tt kernelA kernelB = Inr (facesA, facesB)"
  shows "distinct facesA \<and> distinct facesB \<and>
         (\<exists>msgs trisA trisB.
            intersectKernelKernel tt kernelA kernelB = Inr (msgs, trisA, trisB) \<and>
            set facesA = faceIndex ` set trisA \<and> set facesB = faceIndex ` set trisB)"
  using assms
  by (auto simp: intersectFaceIds_def collapseFaceIds_set split: sum.splits)

lemma split_empty_sample:
  "splitNode (Node (mkBox (mkPoint 0 0 0) (mkPoint 4 4 4)) (replicate 8 None) []) =
     Node (mkBox (mkPoint 0 0 0) (mkPoint 4 4 4))
       [Some (newNode (mkBox (mkPoint 0 0 0) (mkPoint 2 2 2))),
        Some (newNode (mkBox (mkPoint 2 0 0) (mkPoint 4 2 2))),
        Some (newNode (mkBox (mkPoint 2 0 2) (mkPoint 4 2 4))),
        Some (newNode (mkBox (mkPoint 0 0 2) (mkPoint 2 2 4))),
        Some (newNode (mkBox (mkPoint 0 2 0) (mkPoint 2 4 2))),
        Some (newNode (mkBox (mkPoint 2 2 0) (mkPoint 4 4 2))),
        Some (newNode (mkBox (mkPoint 2 2 2) (mkPoint 4 4 4))),
        Some (newNode (mkBox (mkPoint 0 2 2) (mkPoint 2 4 4)))]
       []"
  by (simp add: splitNode_def childBoxes_def Let_def geom_defs)

lemma insert_newNode:
  "depth \<le> MAX_DEPTH \<Longrightarrow> insertTriangle (newNode bb) t depth = Node bb (replicate 8 None) [t]"
  by (subst insertTriangle_room)
     (simp_all add: newNode_def pushTriangle_def MAX_TRIANGLES_PER_NODE_def)

lemma sampleTreeD_eq:
  "sampleTreeD =
     Node (mkBox (mkPoint 0 0 0) (mkPoint 4 4 4))
       [Some (Node (mkBox (mkPoint 0 0 0) (mkPoint 2 2 2)) (replicate 8 None)
                [sampleTriangle 3 (mkPoint (3 / 2) 1 1)]),
        Some (Node (mkBox (mkPoint 2 0 0) (mkPoint 4 2 2)) (replicate 8 None)
                [sampleTriangle 3 (mkPoint (3 / 2) 1 1)]),
        Some (newNode (mkBox (mkPoint 2 0 2) (mkPoint 4 2 4))),
        Some (newNode (mkBox (mkPoint 0 0 2) (mkPoint 2 2 4))),
        Some (Node (mkBox (mkPoint 0 2 0) (mkPoint 2 4 2)) (replicate 8 None)
                [sampleTriangle 3 (mkPoint (3 / 2) 1 1)]),
        Some (newNode (mkBox (mkPoint 2 2 0) (mkPoint 4 4 2))),
        Some (newNode (mkBox (mkPoint 2 2 2) (mkPoint 4 4 4))),
        Some (newNode (mkBox (mkPoint 0 2 2) (mkPoint 2 4 4)))]
       []"
  unfolding sampleTreeD_def split_empty_sample
  by (subst insertTriangle_interior_slots)
     (simp_all add: MAX_DEPTH_def insert_newNode,
      simp_all add: newNode_def geom_defs)


lemma leafPairs_sample_dup:
  "map fst (leafPairs sampleTreeD sampleTreeE) = map the (children sampleTreeD) \<and>
   map snd (leafPairs sampleTreeD sampleTreeE) = replicate 8 sampleTreeE"
  unfolding sampleTreeD_eq sampleTreeE_def
  apply (subst leafPairs_unfold)
  apply (simp add: geom_defs)
  apply (subst leafPairs_unfold, simp add: newNode_def geom_defs)+
  apply (simp add: eval_nat_numeral)
  done


lemma leafPairs_sample_zip:
  "leafPairs sampleTreeD sampleTreeE =
     zip (map the (children sampleTreeD)) (replicate 8 sampleTreeE)"
  using zip_map_fst_snd [of "leafPairs sampleTreeD sampleTreeE"] leafPairs_sample_dup
  by simp

lemma query_sample_dup:
  "intersectKernelKernel shareVertex \<lparr>root = Some sampleTreeD\<rparr>
       (Octree \<lparr>root = Some sampleTreeE\<rparr>) =
     Inr ([], replicate 3 (sampleTriangle 3 (mkPoint (3 / 2) 1 1)),
              replicate 3 (sampleTriangle 7 (mkPoint (3 / 2) 1 1)))"
  unfolding intersectKernelKernel_built leafPairs_sample_zip
  unfolding sampleTreeD_eq sampleTreeE_def
  by (simp add: allHits_def pairHits_def shareVertex_def vertexList_def newNode_def
      eval_nat_numeral isLeaf_def geom_defs)

theorem face_id_sets_deduplicated_witness:
  "intersectKernelKernel shareVertex \<lparr>root = Some sampleTreeD\<rparr>
       (Octree \<lparr>root = Some sampleTreeE\<rparr>) =
     Inr ([], replicate 3 (sampleTriangle 3 (mkPoint (3 / 2) 1 1)),
              replicate 3 (sampleTriangle 7 (mkPoint (3 / 2) 1 1))) \<and>
   intersectFaceIds shareVertex \<lparr>root = Some sampleTreeD\<rparr>
       (Octree \<lparr>root = Some sampleTreeE\<rparr>) = Inr ([3], [7]) \<and>
   distinct [3 :: int] \<and> distinct [7 :: int]"
proof -
  have run: "intersectFaceIds shareVertex \<lparr>root = Some sampleTreeD\<rparr>
       (Octree \<lparr>root = Some sampleTreeE\<rparr>) = Inr ([3], [7])"
    by (simp add: intersectFaceIds_def query_sample_dup collapseFaceIds_def insertFaceId_def
        eval_nat_numeral sampleTriangle_def)
  from face_id_sets_deduplicated [OF run] run query_sample_dup show ?thesis by simp
qed

section \<open>Recursion depth of insertion\<close>

lemma recursionDepth_overflow:
  "depth > MAX_DEPTH \<Longrightarrow> recursionDepth node triangle depth = 0"
  by (subst recursionDepth.simps) simp

lemma recursionDepth_room:
  "\<not> depth > MAX_DEPTH \<Longrightarrow> isLeaf node \<Longrightarrow>
   int (length (triangles node)) < MAX_TRIANGLES_PER_NODE \<Longrightarrow>
   recursionDepth node triangle depth = 0"
  by (subst recursionDepth.simps) simp

lemma recursionDepth_full:
  "\<not> depth > MAX_DEPTH \<Longrightarrow> isLeaf node \<Longrightarrow>
   \<not> int (length (triangles node)) < MAX_TRIANGLES_PER_NODE \<Longrightarrow>
   recursionDepth node triangle depth = 1 + recursionDepth (splitNode node) triangle (depth + 1)"
  by (subst recursionDepth.simps) simp

lemma recursionDepth_interior:
  "\<not> depth > MAX_DEPTH \<Longrightarrow> \<not> isLeaf node \<Longrightarrow>
   recursionDepth node triangle depth =
     fold (\<lambda>c deepest.
             if c \<noteq> None \<and> boxContainsAnyVertices (boundingBox (the c)) triangle
             then max deepest (1 + recursionDepth (the c) triangle (depth + 1))
             else deepest)
          (children node) 0"
  by (subst recursionDepth.simps) simp

lemma fold_max_bound:
  fixes bound :: nat
  assumes "m \<le> bound" and "\<And>c. c \<in> set slots \<Longrightarrow> P c \<Longrightarrow> g c \<le> bound"
  shows "fold (\<lambda>c deepest. if P c then max deepest (g c) else deepest) slots m \<le> bound"
  using assms by (induction slots arbitrary: m) simp_all

lemma recursionDepth_bound:
  "recursionDepth node triangle depth \<le> nat (MAX_DEPTH + 1 - depth)"
proof (induction node triangle depth rule: recursionDepth.induct)
  case (1 node triangle depth)
  consider (over) "depth > MAX_DEPTH"
    | (room) "\<not> depth > MAX_DEPTH" "isLeaf node"
        "int (length (triangles node)) < MAX_TRIANGLES_PER_NODE"
    | (full) "\<not> depth > MAX_DEPTH" "isLeaf node"
        "\<not> int (length (triangles node)) < MAX_TRIANGLES_PER_NODE"
    | (inner) "\<not> depth > MAX_DEPTH" "\<not> isLeaf node"
    by blast
  then show ?case
  proof cases
    case over
    then show ?thesis by (simp add: recursionDepth_overflow)
  next
    case room
    then show ?thesis by (simp add: recursionDepth_room)
  next
    case full
    from "1.IH"(1) [OF full]
    have "recursionDepth (splitNode node) triangle (depth + 1) \<le> nat (MAX_DEPTH + 1 - (depth + 1))" .
    with full show ?thesis by (simp add: recursionDepth_full)
  next
    case inner
    have "fold (\<lambda>c deepest.
             if c \<noteq> None \<and> boxContainsAnyVertices (boundingBox (the c)) triangle
             then max deepest (1 + recursionDepth (the c) triangle (depth + 1))
             else deepest)
          (children node) 0 \<le> nat (MAX_DEPTH + 1 - depth)"
    proof (rule fold_max_bound)
      show "0 \<le> nat (MAX_DEPTH + 1 - depth)" by simp
    next
      fix c
      assume c: "c \<in> set (children node)"
        "c \<noteq> None \<and> boxContainsAnyVertices (boundingBox (the c)) triangle"
      from "1.IH"(2) [OF inner c]
      have "recursionDepth (the c) triangle (depth + 1) \<le> nat (MAX_DEPTH + 1 - (depth + 1))" .
      with inner show "1 + recursionDepth (the c) triangle (depth + 1) \<le> nat (MAX_DEPTH + 1 - depth)"
        by simp
    qed
    with inner show ?thesis by (simp add: recursionDepth_interior)
  qed
qed

lemma crowded_boxes:
  "0 \<le> s \<Longrightarrow> roundDouble s = s \<Longrightarrow> childBoxes \<lparr>bmin = mkPoint 0 0 0, bmax = mkPoint s s s\<rparr> =
     [\<lparr>bmin = mkPoint 0 0 0, bmax = mkPoint (s / 2) (s / 2) (s / 2)\<rparr>,
      \<lparr>bmin = mkPoint (s / 2) 0 0, bmax = mkPoint s (s / 2) (s / 2)\<rparr>,
      \<lparr>bmin = mkPoint (s / 2) 0 (s / 2), bmax = mkPoint s (s / 2) s\<rparr>,
      \<lparr>bmin = mkPoint 0 0 (s / 2), bmax = mkPoint (s / 2) (s / 2) s\<rparr>,
      \<lparr>bmin = mkPoint 0 (s / 2) 0, bmax = mkPoint (s / 2) s (s / 2)\<rparr>,
      \<lparr>bmin = mkPoint (s / 2) (s / 2) 0, bmax = mkPoint s s (s / 2)\<rparr>,
      \<lparr>bmin = mkPoint (s / 2) (s / 2) (s / 2), bmax = mkPoint s s s\<rparr>,
      \<lparr>bmin = mkPoint 0 (s / 2) (s / 2), bmax = mkPoint (s / 2) s s\<rparr>]"
  by (simp add: childBoxes_def Let_def geom_defs min_def max_def)

lemma crowded_destination:
  assumes "2 \<le> s" and rep: "roundDouble s = s"
  shows "destinationChild (childBoxes \<lparr>bmin = mkPoint 0 0 0, bmax = mkPoint s s s\<rparr>)
     (sampleTriangle f (mkPoint 0 0 0)) = 0"
proof -
  have "0 \<le> s" using assms by simp
  then show ?thesis
    unfolding crowded_boxes [OF \<open>0 \<le> s\<close> rep] using assms
    by (simp add: destinationChild_def firstContaining_def upt8 geom_defs)
qed

lemma crowded_split_children:
  assumes "2 \<le> s" and rep: "roundDouble s = s"
  shows "children (splitNode (crowdedLeaf s)) =
     Some (crowdedLeaf (s / 2)) #
     map (\<lambda>i. Some (newNode (childBoxes \<lparr>bmin = mkPoint 0 0 0, bmax = mkPoint s s s\<rparr> ! i)))
         [1, 2, 3, 4, 5, 6, 7]"
proof -
  let ?kids = "children (splitNode (crowdedLeaf s))"
  have len: "length ?kids = 8"
    by (simp add: splitNode_def Let_def length_fold_moveTriangle)
  have "?kids = map (nth ?kids) [0..<length ?kids]"
    by (simp add: map_nth)
  also have "\<dots> = map (nth ?kids) [0, 1, 2, 3, 4, 5, 6, 7]"
    by (simp only: len upt8)
  also have "\<dots> = Some (crowdedLeaf (s / 2)) #
     map (\<lambda>i. Some (newNode (childBoxes \<lparr>bmin = mkPoint 0 0 0, bmax = mkPoint s s s\<rparr> ! i)))
         [1, 2, 3, 4, 5, 6, 7]"
    using assms
    by (simp add: splitNode_children crowdedLeaf_def crowded_destination filter_map comp_def
          newNode_def, simp add: crowded_boxes)
  finally show ?thesis .
qed

lemma crowded_full:
  "isLeaf (crowdedLeaf s) \<and>
   \<not> int (length (triangles (crowdedLeaf s))) < MAX_TRIANGLES_PER_NODE"
  by (simp add: crowdedLeaf_def MAX_TRIANGLES_PER_NODE_def)

lemma crowded_others_reject:
  assumes "2 < s" and "i \<in> {1, 2, 3, 4, 5, 6, 7}" and rep: "roundDouble s = s"
  shows "\<not> boxContainsAnyVertices
            (childBoxes \<lparr>bmin = mkPoint 0 0 0, bmax = mkPoint s s s\<rparr> ! i)
            (sampleTriangle f (mkPoint 0 0 0))"
proof -
  have "0 \<le> s" using assms by simp
  show ?thesis
    unfolding crowded_boxes [OF \<open>0 \<le> s\<close> rep] using assms
    by (auto simp: geom_defs)
qed

lemma crowded_first_accepts:
  "0 \<le> s \<Longrightarrow> boxContainsAnyVertices (boundingBox (crowdedLeaf s)) (sampleTriangle f (mkPoint 0 0 0))"
  by (simp add: crowdedLeaf_def geom_defs)

lemma crowded_step:
  assumes "depth + 1 \<le> MAX_DEPTH" and "2 < s" and rep: "roundDouble s = s"
  shows "recursionDepth (crowdedLeaf s) (sampleTriangle f (mkPoint 0 0 0)) depth =
           2 + recursionDepth (crowdedLeaf (s / 2)) (sampleTriangle f (mkPoint 0 0 0)) (depth + 2)"
proof -
  let ?t = "sampleTriangle f (mkPoint 0 0 0)"
  have d: "\<not> depth > MAX_DEPTH" "\<not> depth + 1 > MAX_DEPTH" using assms by simp_all
  have "recursionDepth (crowdedLeaf s) ?t depth =
      1 + recursionDepth (splitNode (crowdedLeaf s)) ?t (depth + 1)"
    using crowded_full [of s] d(1) by (simp add: recursionDepth_full)
  also have "recursionDepth (splitNode (crowdedLeaf s)) ?t (depth + 1) =
      1 + recursionDepth (crowdedLeaf (s / 2)) ?t (depth + 2)"
    unfolding recursionDepth_interior [OF d(2) splitNode_not_leaf]
    using assms(2) rep
    by (simp add: crowded_split_children crowded_others_reject crowded_first_accepts newNode_def
        add.commute)
  finally show ?thesis by simp
qed

lemma crowded_last:
  assumes "depth = MAX_DEPTH"
  shows "recursionDepth (crowdedLeaf s) (sampleTriangle f (mkPoint 0 0 0)) depth = 1"
  using crowded_full [of s] assms
  by (simp add: recursionDepth_full recursionDepth_overflow)

lemma crowded_from_zero:
  "recursionDepth (crowdedLeaf (2 ^ 35)) (sampleTriangle 10 (mkPoint 0 0 0)) 0 = 33"
  by (simp add: crowded_step crowded_last MAX_DEPTH_def roundDouble_Ints)

text \<open>
  Every insertion that \<open>build\<close> makes starts at depth 0, on the tree that the triangles
  before it have left.
\<close>

lemma build_insertions_bounded:
  "int (recursionDepth (the (root (build (take k meshTriangles) bbox))) triangle 0)
     \<le> MAX_DEPTH + 1"
  using recursionDepth_bound [of "the (root (build (take k meshTriangles) bbox))" triangle 0]
  unfolding MAX_DEPTH_def by arith

text \<open>
  Claim C9. \<open>insertTriangle\<close> is a total function: its recursion is well-founded
  because every recursive call, the retry on the split node and the calls on the
  children alike, is made only when the depth is at most \<open>MAX_DEPTH\<close> and passes the
  depth plus one. A call with a depth beyond \<open>MAX_DEPTH\<close> appends the triangle and
  returns without recursing. The number of nested recursive calls below a call is at
  most \<open>MAX_DEPTH + 1 - depth\<close> where that is positive and zero otherwise, and so at
  most \<open>MAX_DEPTH + 1\<close> from every starting depth that is not negative: \<open>build\<close>
  starts every insertion at depth 0, and every other call passes the depth it received
  plus one.
\<close>

theorem insertTriangle_recursion_bounded:
  "(depth > MAX_DEPTH \<longrightarrow>
      recursionDepth node triangle depth = 0 \<and>
      insertTriangle node triangle depth = pushTriangle node triangle) \<and>
   (\<not> depth > MAX_DEPTH \<and> isLeaf node \<and>
    \<not> int (length (triangles node)) < MAX_TRIANGLES_PER_NODE \<longrightarrow>
      insertTriangle node triangle depth = insertTriangle (splitNode node) triangle (depth + 1) \<and>
      recursionDepth node triangle depth =
        1 + recursionDepth (splitNode node) triangle (depth + 1)) \<and>
   (\<not> depth > MAX_DEPTH \<and> \<not> isLeaf node \<longrightarrow>
      children (insertTriangle node triangle depth) =
        map (\<lambda>c. case c of None \<Rightarrow> None
               | Some ch \<Rightarrow>
                   if boxContainsAnyVertices (boundingBox ch) triangle
                   then Some (insertTriangle ch triangle (depth + 1)) else Some ch)
            (children node) \<and>
      recursionDepth node triangle depth =
        fold (\<lambda>c deepest.
                if c \<noteq> None \<and> boxContainsAnyVertices (boundingBox (the c)) triangle
                then max deepest (1 + recursionDepth (the c) triangle (depth + 1))
                else deepest)
             (children node) 0) \<and>
   int (recursionDepth node triangle depth) \<le> max 0 (MAX_DEPTH + 1 - depth) \<and>
   (0 \<le> depth \<longrightarrow> int (recursionDepth node triangle depth) \<le> MAX_DEPTH + 1)"
proof -
  have general: "int (recursionDepth node triangle depth) \<le> max 0 (MAX_DEPTH + 1 - depth)"
    using recursionDepth_bound [of node triangle depth] unfolding MAX_DEPTH_def by arith
  then have "int (recursionDepth node triangle depth) \<le> MAX_DEPTH + 1" if "0 \<le> depth"
    using that unfolding MAX_DEPTH_def by arith
  with general show ?thesis
    by (auto simp: recursionDepth_overflow insertTriangle_overflow insertTriangle_full
        recursionDepth_full insertTriangle_interior recursionDepth_interior
        simp del: not_None_eq)
qed

theorem insertTriangle_recursion_bounded_witness:
  "(33 :: int) > MAX_DEPTH \<and>
   recursionDepth sampleLeafA (sampleTriangle 10 (mkPoint 0 0 0)) 33 = 0 \<and>
   insertTriangle sampleLeafA (sampleTriangle 10 (mkPoint 0 0 0)) 33 =
     pushTriangle sampleLeafA (sampleTriangle 10 (mkPoint 0 0 0)) \<and>
   \<not> (0 :: int) > MAX_DEPTH \<and> isLeaf (crowdedLeaf (2 ^ 35)) \<and>
   \<not> int (length (triangles (crowdedLeaf (2 ^ 35)))) < MAX_TRIANGLES_PER_NODE \<and>
   insertTriangle (crowdedLeaf (2 ^ 35)) (sampleTriangle 10 (mkPoint 0 0 0)) 0 =
     insertTriangle (splitNode (crowdedLeaf (2 ^ 35))) (sampleTriangle 10 (mkPoint 0 0 0)) 1 \<and>
   \<not> (1 :: int) > MAX_DEPTH \<and> \<not> isLeaf (splitNode (crowdedLeaf (2 ^ 35))) \<and>
   recursionDepth (splitNode (crowdedLeaf (2 ^ 35))) (sampleTriangle 10 (mkPoint 0 0 0)) 1 = 32 \<and>
   (0 :: int) \<le> 0 \<and>
   recursionDepth (crowdedLeaf (2 ^ 35)) (sampleTriangle 10 (mkPoint 0 0 0)) 0 = 33 \<and>
   int 33 \<le> MAX_DEPTH + 1"
  using insertTriangle_recursion_bounded [of 33 sampleLeafA "sampleTriangle 10 (mkPoint 0 0 0)"]
    insertTriangle_recursion_bounded [of 0 "crowdedLeaf (2 ^ 35)"
      "sampleTriangle 10 (mkPoint 0 0 0)"]
    insertTriangle_recursion_bounded [of 1 "splitNode (crowdedLeaf (2 ^ 35))"
      "sampleTriangle 10 (mkPoint 0 0 0)"]
    crowded_full [of "2 ^ 35"] crowded_from_zero splitNode_not_leaf [of "crowdedLeaf (2 ^ 35)"]
  by (simp add: MAX_DEPTH_def del: not_None_eq)

theorem insertTriangle_steps_witness:
  "insertTriangle sampleLeafA (sampleTriangle 10 (mkPoint 0 0 0)) 0 =
     Node (mkBox (mkPoint 0 0 0) (mkPoint 2 2 2)) (replicate 8 None)
          [sampleTriangle 0 (mkPoint 1 1 1), sampleTriangle 10 (mkPoint 0 0 0)] \<and>
   insertTriangle sampleLeafA (sampleTriangle 10 (mkPoint 0 0 0)) 33 =
     pushTriangle sampleLeafA (sampleTriangle 10 (mkPoint 0 0 0))"
  using insertTriangle_steps [of sampleLeafA "sampleTriangle 10 (mkPoint 0 0 0)" 0]
    insertTriangle_steps [of sampleLeafA "sampleTriangle 10 (mkPoint 0 0 0)" 33]
  by (simp add: MAX_DEPTH_def MAX_TRIANGLES_PER_NODE_def sampleLeafA_def)

end
